theory Spec2Isabelle
  imports Complex_Main "HOL-Library.Monad_Syntax"
begin

section \<open>Conventions of the embedding\<close>

text \<open>
  The development embeds the numerical core of the \<open>cora\<close> large-scale-structure
  simulation (\<open>cora/signal/corrfunc.py\<close> and \<open>cora/signal/lss.py\<close>).

  \<^item> A finite \<open>float64\<close> is an exact \<open>real\<close>: rounding, overflow and underflow are
    not modelled.
  \<^item> A value that numpy computes as \<open>nan\<close> or \<open>inf\<close> (a division by zero, the square root
    of a negative number) is not a real number. Such a value is \<open>None\<close> of type
    \<open>npfloat\<close>, and, as in numpy, every arithmetic operation on it gives it again.
  \<^item> An exception is the \<open>Inl\<close> side of a sum type.
  \<^item> Routines of external libraries (scipy, numpy, healpy, hankl, hankel) are
    parameters of the functions that call them.
\<close>

datatype error =
    IndexError
  | ValueError string
  | ZeroDivisionError
  | AssertionError
  | TypeError
  | AxisError

type_synonym npfloat = "real option"

definition np_div :: "real \<Rightarrow> real \<Rightarrow> npfloat" where
  "np_div x y = (if y = 0 then None else Some (x / y))"

definition np_sqrt :: "real \<Rightarrow> npfloat" where
  "np_sqrt x = (if x < 0 then None else Some (sqrt x))"

definition np_mul :: "npfloat \<Rightarrow> npfloat \<Rightarrow> npfloat" where
  "np_mul a b = (case a of None \<Rightarrow> None | Some x \<Rightarrow> map_option (\<lambda>y. x * y) b)"

definition np_sum :: "npfloat list \<Rightarrow> npfloat" where
  "np_sum xs = map_option sum_list (those xs)"

text \<open>\<open>np.linspace(start, stop, num)\<close> and \<open>np.logspace(start, stop, num, endpoint)\<close>.\<close>

definition linspace :: "real \<Rightarrow> real \<Rightarrow> nat \<Rightarrow> real list" where
  "linspace start stop num =
     map (\<lambda>k. start + real k * ((stop - start) / real (num - 1))) [0..<num]"

definition logspace :: "real \<Rightarrow> real \<Rightarrow> nat \<Rightarrow> bool \<Rightarrow> real list" where
  "logspace start stop num endpoint =
     map (\<lambda>k. 10 powr (start + real k * ((stop - start) / real (if endpoint then num - 1 else num))))
       [0..<num]"

text \<open>
  \<open>np.array_split(ary, n)\<close> for an integer \<open>n\<close>: \<open>n\<close> consecutive sections, the first
  \<open>len(ary) % n\<close> of them one element longer; \<open>n \<le> 0\<close> raises \<open>ValueError\<close>.
\<close>

fun split_sizes :: "'a list \<Rightarrow> nat list \<Rightarrow> 'a list list" where
  "split_sizes xs [] = []"
| "split_sizes xs (s # ss) = take s xs # split_sizes (drop s xs) ss"

definition array_split :: "'a list \<Rightarrow> int \<Rightarrow> error + 'a list list" where
  "array_split ary n =
     (if n \<le> 0 then Inl (ValueError ''number sections must be larger than 0.'')
      else
        let Ntotal = length ary;
            Nsections = nat n;
            Neach_section = Ntotal div Nsections;
            extras = Ntotal mod Nsections;
            section_sizes = replicate extras (Neach_section + 1)
                          @ replicate (Nsections - extras) Neach_section
        in Inr (split_sizes ary section_sizes))"

text \<open>
  The scipy routines used by \<open>corrfunc.py\<close>.
  \<^item> \<open>roots_legendre n\<close> stands for \<open>scipy.special.roots_legendre(n, mu=True)\<close>: the
    nodes, the weights and the sum of the weights. scipy raises \<open>ValueError\<close> for
    \<open>n < 1\<close>; the callers below check that before they ask for the nodes.
  \<^item> \<open>lpn n v\<close> stands for \<open>scipy.special.lpn(n, v)[0]\<close>: the Legendre polynomials
    \<open>P\<^sub>0 \<dots> P\<^sub>n\<close> at \<open>v\<close>.
  \<^item> \<open>scipy.integrate.romb\<close> on \<open>2\<^sup>k + 1\<close> equally spaced samples is trapezoid sums
    combined by Richardson steps: \<open>dx\<close> times a fixed linear combination of the
    samples. \<open>romb_weights n\<close> are the coefficients for \<open>n\<close> samples.
\<close>

record scipy_ext =
  roots_legendre :: "nat \<Rightarrow> real list \<times> real list \<times> real"
  lpn :: "nat \<Rightarrow> real \<Rightarrow> real list"
  romb_weights :: "nat \<Rightarrow> real list"

definition romb :: "scipy_ext \<Rightarrow> npfloat list \<Rightarrow> real \<Rightarrow> npfloat" where
  "romb E y dx =
     (case those y of
        None \<Rightarrow> None
      | Some vs \<Rightarrow>
          Some (dx * (\<Sum>k\<leftarrow>[0..<length vs]. romb_weights E (length vs) ! k * vs ! k)))"

section \<open>Richardson extrapolation (\<open>corrfunc.richardson\<close>)\<close>

text \<open>
  The estimates are scalars; on arrays the code does the same elementwise. \<open>t ** n\<close> is
  a float raised to an integer; \<open>0.0 ** n\<close> for negative \<open>n\<close> and a division by
  \<open>t ** n - 1.0 = 0\<close> raise \<open>ZeroDivisionError\<close>. With \<open>return_table\<close> false and no
  estimates, \<open>table[-1]\<close> raises \<open>IndexError\<close>.
\<close>

datatype richardson_result = Table "real list list" | Apex real

definition py_pow :: "real \<Rightarrow> int \<Rightarrow> error + real" where
  "py_pow t n = (if t = 0 \<and> n < 0 then Inl ZeroDivisionError else Inr (t powi n))"

fun cancel_cols :: "real \<Rightarrow> int \<Rightarrow> real list \<Rightarrow> nat list \<Rightarrow> real list \<Rightarrow> error + real list" where
  "cancel_cols t base_pow prev [] newrow = Inr newrow"
| "cancel_cols t base_pow prev (col_ind # cols) newrow =
     (let n = int col_ind * base_pow in
      case py_pow t n of
        Inl e \<Rightarrow> Inl e
      | Inr tn \<Rightarrow>
          if tn - 1 = 0 then Inl ZeroDivisionError
          else cancel_cols t base_pow prev cols
                 (newrow @ [(tn * newrow ! (col_ind - 1) - prev ! (col_ind - 1)) / (tn - 1)]))"

fun build_table :: "real list \<Rightarrow> real \<Rightarrow> int \<Rightarrow> nat list \<Rightarrow> real list list \<Rightarrow> error + real list list" where
  "build_table estimates t base_pow [] table = Inr table"
| "build_table estimates t base_pow (row_ind # rows) table =
     (case cancel_cols t base_pow (if row_ind = 0 then [] else table ! (row_ind - 1))
             [1..<row_ind + 1] [estimates ! row_ind] of
        Inl e \<Rightarrow> Inl e
      | Inr newrow \<Rightarrow> build_table estimates t base_pow rows (table @ [newrow]))"

definition richardson :: "real list \<Rightarrow> real \<Rightarrow> int \<Rightarrow> bool \<Rightarrow> error + richardson_result" where
  "richardson estimates t base_pow return_table =
     (let k = length estimates in
      case build_table estimates t base_pow [0..<k] [] of
        Inl e \<Rightarrow> Inl e
      | Inr table \<Rightarrow>
          if return_table then Inr (Table table)
          else if k = 0 then Inl IndexError
          else Inr (Apex (table ! (k - 1) ! (k - 1))))"

text \<open>
  The synthetic sequence of the extrapolation test: \<open>e\<^sub>i = L + c (h\<^sub>0 / t\<^sup>i)\<^sup>p\<close>, one
  error term of power \<open>p\<close> and nothing after it.
\<close>

definition series :: "real \<Rightarrow> real \<Rightarrow> real \<Rightarrow> real \<Rightarrow> int \<Rightarrow> nat \<Rightarrow> real" where
  "series L c h0 t p i = L + c * (h0 / t ^ i) powi p"

section \<open>Angular covariance (\<open>corrfunc.legendre_array\<close>, \<open>corrfunc.corr_to_clarray\<close>)\<close>

definition legendre_array :: "scipy_ext \<Rightarrow> int \<Rightarrow> real list \<Rightarrow> error + real list list" where
  "legendre_array E lmax mu =
     (if lmax + 1 < 0 then Inl (ValueError ''negative dimensions are not allowed'')
      else if lmax < 0 \<and> mu \<noteq> [] then Inl (ValueError ''n must be a non-negative integer.'')
      else Inr (map (\<lambda>l. map (\<lambda>v. lpn E (nat lmax) v ! l) mu) [0..<nat (lmax + 1)]))"

text \<open>
  The half bin width: from \<open>xwidth\<close> when given, else from the two smallest distances
  (\<open>xsort[1]\<close> raises \<open>IndexError\<close> when there are fewer than two).
\<close>

definition half_width :: "real list \<Rightarrow> real option \<Rightarrow> error + real" where
  "half_width xarray xwidth =
     (case xwidth of
        None \<Rightarrow>
          (let xsort = sort xarray in
           if length xsort < 2 then Inl IndexError
           else Inr (\<bar>xsort ! 1 - xsort ! 0\<bar> / 2))
      | Some xw \<Rightarrow> Inr (xw / 2))"

text \<open>
  The separation of two points at distances \<open>x1\<close>, \<open>x2\<close> seen under an angle of cosine
  \<open>ms\<close>, and the correlation function applied to it. A \<open>nan\<close> separation gives a \<open>nan\<close>
  correlation.
\<close>

definition rc_sep :: "real \<Rightarrow> real \<Rightarrow> real \<Rightarrow> npfloat" where
  "rc_sep ms x1 x2 = np_sqrt ((x1 - x2)\<^sup>2 + 2 * x1 * x2 * (1 - ms))"

text \<open>
  The body of the loop over node batches, for one node \<open>ms\<close>: the \<open>xlen \<times> xlen\<close> matrix
  \<open>corr1\<close>. With \<open>xromb > 0\<close> the array of \<open>corr(rc)\<close> is reshaped to
  \<open>(xlen, xint, xlen, xint)\<close>, integrated by \<open>romb\<close> along the last axis and then along
  the second, and divided by \<open>(2 * xhalf) ** 2\<close>.
\<close>

definition corr1_node ::
  "scipy_ext \<Rightarrow> (real \<Rightarrow> real) \<Rightarrow> real list \<Rightarrow> nat \<Rightarrow> (nat \<times> real \<times> real) option \<Rightarrow> real
     \<Rightarrow> npfloat list list" where
  "corr1_node E corr xa xlen integ ms =
     map (\<lambda>i. map (\<lambda>j.
       case integ of
         None \<Rightarrow> map_option corr (rc_sep ms (xa ! i) (xa ! j))
       | Some (xint, xspace, xhalf) \<Rightarrow>
           (case romb E
                   (map (\<lambda>p. romb E
                              (map (\<lambda>q. map_option corr
                                           (rc_sep ms (xa ! (i * xint + p)) (xa ! (j * xint + q))))
                                   [0..<xint])
                              xspace)
                        [0..<xint])
                   xspace of
              None \<Rightarrow> None
            | Some v \<Rightarrow> np_div v ((2 * xhalf)\<^sup>2)))
       [0..<xlen]) [0..<xlen]"

text \<open>\<open>corr_array[msec, :, :] = corr1\<close> for one batch \<open>msec\<close> of node indices.\<close>

definition fill_batch ::
  "(nat \<Rightarrow> npfloat list list) \<Rightarrow> npfloat list list list \<Rightarrow> nat list \<Rightarrow> npfloat list list list" where
  "fill_batch node corr_array msec = fold (\<lambda>m a. a[m := node m]) msec corr_array"

definition corr_to_clarray ::
  "scipy_ext \<Rightarrow> (real \<Rightarrow> real) \<Rightarrow> int \<Rightarrow> real list \<Rightarrow> int \<Rightarrow> real option \<Rightarrow> int
     \<Rightarrow> error + npfloat list list list" where
  "corr_to_clarray E corr lmax xarray xromb xwidth q =
     (let M = q * lmax in
      if M < 1 then Inl (ValueError ''n must be a positive integer.'')
      else
        let (mu, w, wsum) = roots_legendre E (nat M);
            xlen = length xarray;
            corr_array0 = replicate (nat M) (replicate xlen (replicate xlen (Some 0)))
        in
        case (if xromb > 0
              then (case half_width xarray xwidth of
                      Inl e \<Rightarrow> Inl e
                    | Inr xhalf \<Rightarrow>
                        let xint = 2 ^ nat xromb + 1;
                            xspace = 2 * xhalf / 2 ^ nat xromb;
                            xa = concat (map (\<lambda>x. map (\<lambda>d. x + d) (linspace (- xhalf) xhalf xint))
                                             xarray)
                        in Inr (xa, Some (xint, xspace, xhalf)))
              else Inr (xarray, None)) of
          Inl e \<Rightarrow> Inl e
        | Inr (xa, integ) \<Rightarrow>
            (case array_split [0..<nat M] (M div 50) of
               Inl e \<Rightarrow> Inl e
             | Inr sections \<Rightarrow>
                 let corr_array =
                       foldl (fill_batch (\<lambda>m. corr1_node E corr xa xlen integ (mu ! m)))
                             corr_array0 sections
                 in
                 (case legendre_array E lmax mu of
                    Inl e \<Rightarrow> Inl e
                  | Inr lm \<Rightarrow>
                      Inr (map (\<lambda>l. map (\<lambda>i. map (\<lambda>j.
                             np_sum (map (\<lambda>m.
                                       np_mul (np_mul (Some (lm ! l ! m)) (np_div (w ! m * 4 * pi) wsum))
                                              (corr_array ! m ! i ! j))
                                     [0..<nat M]))
                             [0..<xlen]) [0..<xlen]) [0..<nat (lmax + 1)]))))"

text \<open>
  A stand-in for the external routines, for statements evaluated at a concrete input: it
  returns arrays of the right shapes and has no numerical meaning.
\<close>

definition unit_ext :: scipy_ext where
  "unit_ext = \<lparr>roots_legendre = (\<lambda>n. (replicate n 0, replicate n 1, 2)),
               lpn = (\<lambda>n v. replicate (n + 1) 1),
               romb_weights = (\<lambda>n. replicate n 1)\<rparr>"

section \<open>Fingers-of-God kernel (\<open>lss._calculate_width\<close>, \<open>lss.exponential_FoG_kernel\<close>)\<close>

text \<open>\<open>FloatArrayLike\<close>: a Python float or a one-dimensional array.\<close>

datatype floatarraylike = Scalar real | Array "real list"

text \<open>
  Bin widths from bin centres. The interior widths are half the distance between the
  two neighbours; then \<open>widths[0]\<close> is set from \<open>widths[1]\<close>, and after it \<open>widths[-1]\<close>
  from \<open>widths[-2]\<close>. With fewer than two centres \<open>centres[1]\<close> raises \<open>IndexError\<close>.
\<close>

definition calculate_width :: "real list \<Rightarrow> error + real list" where
  "calculate_width centres =
     (let n = length centres in
      if n < 2 then Inl IndexError
      else
        let widths0 = replicate n 0;
            widths1 = map (\<lambda>i. if 1 \<le> i \<and> i < n - 1
                                 then (centres ! (i + 1) - centres ! (i - 1)) / 2
                                 else widths0 ! i) [0..<n];
            widths2 = widths1[0 := 2 * (centres ! 1 - widths1 ! 1 / 2 - centres ! 0)];
            widths3 = widths2[n - 1 :=
                        2 * (centres ! (n - 1) - widths2 ! (n - 2) / 2 - centres ! (n - 2))]
        in Inr (map abs widths3))"

text \<open>
  \<open>np.ones_like(chi) * x\<close> for an argument that is not an array, and numpy's
  broadcasting of a one-dimensional array against an axis of length \<open>n\<close>.
\<close>

definition as_array :: "nat \<Rightarrow> floatarraylike \<Rightarrow> real list" where
  "as_array n x = (case x of Scalar s \<Rightarrow> replicate n s | Array xs \<Rightarrow> xs)"

definition broadcast :: "nat \<Rightarrow> 'a list \<Rightarrow> error + 'a list" where
  "broadcast n xs =
     (if length xs = n then Inr xs
      else if length xs = 1 then Inr (replicate n (xs ! 0))
      else Inl (ValueError ''operands could not be broadcast together''))"

text \<open>\<open>sinhc(x) = np.sinh(x) / x\<close>; at \<open>x = 0\<close> numpy computes \<open>0 / 0 = nan\<close>.\<close>

definition sinhc :: "real \<Rightarrow> npfloat" where
  "sinhc x = np_div (sinh x) x"

text \<open>
  The entries of \<open>K\<close> before normalisation. Off the diagonal
  \<open>exp(-ar * chi_sep) * sinhc(ar * dchi / 2)\<close>. The diagonal is written by
  \<open>np.fill_diagonal(K, exp(-ar * dchi / 4) * sinhc(ar * dchi / 4))\<close>, whose second
  argument is a matrix: numpy writes its flattened entries along the diagonal, so
  \<open>K[i, i]\<close> receives entry \<open>[0, i]\<close>, computed from \<open>a[0]\<close> and \<open>dchi[i]\<close>.
\<close>

definition K_offdiag :: "npfloat list \<Rightarrow> real list \<Rightarrow> real list \<Rightarrow> nat \<Rightarrow> nat \<Rightarrow> npfloat" where
  "K_offdiag a chi dchi i j =
     do { ar \<leftarrow> a ! i;
          sh \<leftarrow> sinhc (ar * (dchi ! j) / 2);
          Some (exp (- ar * \<bar>chi ! i - chi ! j\<bar>) * sh) }"

definition K_diag :: "npfloat list \<Rightarrow> real list \<Rightarrow> nat \<Rightarrow> npfloat" where
  "K_diag a dchi i =
     do { ar \<leftarrow> a ! 0;
          sh \<leftarrow> sinhc (ar * (dchi ! i) / 4);
          Some (exp (- ar * (dchi ! i) / 4) * sh) }"

definition K_filled :: "npfloat list \<Rightarrow> real list \<Rightarrow> real list \<Rightarrow> npfloat list list" where
  "K_filled a chi dchi =
     map (\<lambda>i. map (\<lambda>j. if i = j then K_diag a dchi i else K_offdiag a chi dchi i j)
                [0..<length chi]) [0..<length chi]"

text \<open>\<open>K /= np.sum(K, axis=1)[:, np.newaxis]\<close>.\<close>

definition K_normalised :: "npfloat list list \<Rightarrow> npfloat list list" where
  "K_normalised K =
     map (\<lambda>row. map (\<lambda>k. do { x \<leftarrow> k; s \<leftarrow> np_sum row; np_div x s }) row) K"

text \<open>\<open>K /= D[np.newaxis, :]\<close> and \<open>K *= D[:, np.newaxis]\<close>.\<close>

definition K_ungrown :: "real list \<Rightarrow> npfloat list list \<Rightarrow> npfloat list list" where
  "K_ungrown D K =
     map (\<lambda>row. map (\<lambda>j. do { x \<leftarrow> row ! j; np_div x (D ! j) }) [0..<length row]) K"

definition K_regrown :: "real list \<Rightarrow> npfloat list list \<Rightarrow> npfloat list list" where
  "K_regrown D K =
     map (\<lambda>i. map (map_option (\<lambda>x. x * D ! i)) (K ! i)) [0..<length K]"

definition exponential_FoG_kernel ::
  "real list \<Rightarrow> floatarraylike \<Rightarrow> floatarraylike \<Rightarrow> error + npfloat list list" where
  "exponential_FoG_kernel chi sigmaP D =
     (let n = length chi;
          a = map (\<lambda>s. np_div (sqrt 2) s) (as_array n sigmaP)
      in
      case calculate_width chi of
        Inl e \<Rightarrow> Inl e
      | Inr dchi \<Rightarrow>
          (case broadcast n a of
             Inl e \<Rightarrow> Inl e
           | Inr ar \<Rightarrow>
               let K = K_normalised (K_filled ar chi dchi) in
               (case broadcast n (as_array n D) of
                  Inl e \<Rightarrow> Inl e
                | Inr Db \<Rightarrow> Inr (K_regrown Db (K_ungrown Db K)))))"

section \<open>Lognormal transform (\<open>lss.lognormal_transform\<close>)\<close>

text \<open>
  The field is a two-dimensional array, a list of rows, as at both call sites
  (\<open>delta[:]\<close> of shape \<open>(n_shell, n_pixel)\<close>). \<open>np_mean\<close> and \<open>np_var\<close> are numpy's
  \<open>mean\<close> and \<open>var\<close> (the population variance, \<open>ddof = 0\<close>) of the entries along one
  line of the array: \<open>nan\<close> for no entries or when an entry is \<open>nan\<close>.
\<close>

definition np_mean :: "npfloat list \<Rightarrow> npfloat" where
  "np_mean xs = do { vs \<leftarrow> those xs; np_div (sum_list vs) (real (length vs)) }"

definition np_var :: "npfloat list \<Rightarrow> npfloat" where
  "np_var xs = do { m \<leftarrow> np_mean xs; np_mean (map (map_option (\<lambda>x. \<bar>x - m\<bar>\<^sup>2)) xs) }"

definition shape2 :: "'a list list \<Rightarrow> nat \<times> nat" where
  "shape2 A = (length A, if A = [] then 0 else length (A ! 0))"

text \<open>
  The entries that share a variance with entry \<open>(i, j)\<close> under
  \<open>field.var(axis=axis, keepdims=True)\<close>: the whole array for \<open>axis = None\<close>, column \<open>j\<close>
  for axis 0 (or \<open>-2\<close>), row \<open>i\<close> for axis 1 (or \<open>-1\<close>).
\<close>

definition axis_line :: "int option \<Rightarrow> 'a list list \<Rightarrow> nat \<Rightarrow> nat \<Rightarrow> 'a list" where
  "axis_line axis A i j =
     (case axis of
        None \<Rightarrow> concat A
      | Some a \<Rightarrow> if a = 0 \<or> a = - 2 then map (\<lambda>row. row ! j) A else A ! i)"

text \<open>
  A given \<open>out\<close> of another shape raises \<open>ValueError\<close> (all arrays here are \<open>float64\<close>, so
  the dtypes agree); an axis outside \<open>-2 \<dots> 1\<close> makes \<open>field.var\<close> raise \<open>AxisError\<close>.
  The result is the content of \<open>out\<close> on return, \<open>exp(field - var / 2) - 1\<close>. The variance
  is taken from \<open>field\<close> before \<open>out\<close> is changed, so the result is the same when \<open>out\<close>
  is a view of the memory of \<open>field\<close>.
\<close>

definition lognormal_transform ::
  "npfloat list list \<Rightarrow> npfloat list list option \<Rightarrow> int option \<Rightarrow> error + npfloat list list" where
  "lognormal_transform field out axis =
     (if (case out of None \<Rightarrow> False | Some out0 \<Rightarrow> shape2 field \<noteq> shape2 out0)
      then Inl (ValueError ''Given output array is incompatible.'')
      else if (case axis of None \<Rightarrow> False | Some a \<Rightarrow> a < - 2 \<or> 1 < a)
      then Inl AxisError
      else Inr (map (\<lambda>i. map (\<lambda>j. do { x \<leftarrow> field ! i ! j;
                                       var \<leftarrow> np_var (axis_line axis field i j);
                                       Some (exp (x - var / 2) - 1) })
                          [0..<length (field ! i)])
                [0..<length field]))"

text \<open>A finite field: every entry a real number.\<close>

definition finite_field :: "real list list \<Rightarrow> npfloat list list" where
  "finite_field F = map (map Some) F"

section \<open>Mass assignment (\<open>lss._assert_shape\<close>, \<open>lss.za_density_grid\<close>, \<open>lss.za_density_sph\<close>)\<close>

text \<open>An array with its shape: the entries in row-major order.\<close>

record ndarray =
  shape :: "nat list"
  data :: "npfloat list"

definition zeros :: "nat list \<Rightarrow> ndarray" where
  "zeros shp = \<lparr>shape = shp, data = replicate (prod_list shp) (Some 0)\<rparr>"

text \<open>
  \<open>_assert_shape(arr, shape, name)\<close> raises \<open>ValueError\<close> with a message that starts with
  the name of the array (the message also prints both shapes; the numbers are left out
  here). \<open>None\<close>: the check passes.
\<close>

definition assert_shape :: "ndarray \<Rightarrow> nat list \<Rightarrow> string \<Rightarrow> error option" where
  "assert_shape arr shp name =
     (if length (shape arr) \<noteq> length shp
      then Some (ValueError (''Array '' @ name @ '' has wrong number of dimensions''))
      else if shape arr \<noteq> shp
      then Some (ValueError (''Array '' @ name @ '' has the wrong shape''))
      else None)"

definition shape_error :: "string \<Rightarrow> error \<Rightarrow> bool" where
  "shape_error name e \<longleftrightarrow>
     e = ValueError (''Array '' @ name @ '' has wrong number of dimensions'')
   \<or> e = ValueError (''Array '' @ name @ '' has the wrong shape'')"

text \<open>The four checks both functions make, in their order.\<close>

definition validate_shapes ::
  "ndarray \<Rightarrow> ndarray \<Rightarrow> ndarray \<Rightarrow> ndarray \<Rightarrow> nat \<Rightarrow> nat \<Rightarrow> error option" where
  "validate_shapes psi delta_m chi out nchi npix =
     (case assert_shape psi [3, nchi, npix] ''psi'' of
        Some e \<Rightarrow> Some e
      | None \<Rightarrow>
     (case assert_shape delta_m [nchi, npix] ''delta_m'' of
        Some e \<Rightarrow> Some e
      | None \<Rightarrow>
     (case assert_shape chi [nchi] ''chi'' of
        Some e \<Rightarrow> Some e
      | None \<Rightarrow> assert_shape out [nchi, npix] ''out'')))"

text \<open>
  \<open>healpy.npix2nside\<close>: the resolution \<open>nside\<close> with \<open>npix = 12 * nside ** 2\<close>, and
  \<open>ValueError\<close> when there is none.
\<close>

definition npix2nside :: "nat \<Rightarrow> error + nat" where
  "npix2nside npix =
     (case find (\<lambda>k. 12 * k * k = npix) [0..<npix + 1] of
        None \<Rightarrow> Inl (ValueError ''Wrong pixel number (it is not 12*nside**2)'')
      | Some nside \<Rightarrow> Inr nside)"

text \<open>
  The body of the loop over shells (healpy's pixel geometry and the \<open>cora.util.pmesh\<close>
  routines \<open>calculate_positions\<close>, \<open>_pixel_weights\<close>, \<open>_radial_weights\<close>, \<open>_bin_delta\<close>)
  is outside the sources: for shell \<open>ii\<close> it reads \<open>psi\<close>, \<open>delta_bias\<close>, \<open>delta_m\<close> and
  \<open>chi\<close> and adds the displaced mass into \<open>out\<close>. It is a parameter that maps the
  entries of \<open>out\<close> before the shell to those after it.
\<close>

record pmesh_ext =
  grid_shell :: "nat \<Rightarrow> ndarray \<Rightarrow> ndarray \<Rightarrow> ndarray \<Rightarrow> npfloat list \<Rightarrow> npfloat list"
  sph_shell :: "nat \<Rightarrow> ndarray \<Rightarrow> ndarray \<Rightarrow> ndarray \<Rightarrow> ndarray \<Rightarrow> npfloat list \<Rightarrow> npfloat list"

text \<open>
  Both functions write into \<open>out\<close>. The result is the exception raised, if any, and the
  content of \<open>out\<close> when the call ends. \<open>nchi, npix = delta_bias.shape\<close> raises
  \<open>ValueError\<close> unless \<open>delta_bias\<close> has two axes.

  \<open>za_density_grid\<close> validates the shapes, then asks healpy for \<open>nside\<close>, then extends
  \<open>chi\<close> by one bin at each end, reading \<open>chi[0]\<close>, \<open>chi[1]\<close> and \<open>chi[-2]\<close>
  (\<open>IndexError\<close> for fewer than two shells).
\<close>

definition za_density_grid ::
  "pmesh_ext \<Rightarrow> ndarray \<Rightarrow> ndarray \<Rightarrow> ndarray \<Rightarrow> ndarray \<Rightarrow> ndarray \<Rightarrow> error option \<times> ndarray" where
  "za_density_grid P psi delta_bias delta_m chi out =
     (case shape delta_bias of
        [nchi, npix] \<Rightarrow>
          (case validate_shapes psi delta_m chi out nchi npix of
             Some e \<Rightarrow> (Some e, out)
           | None \<Rightarrow>
               (case npix2nside npix of
                  Inl e \<Rightarrow> (Some e, out)
                | Inr nside \<Rightarrow>
                    if nchi < 2 then (Some IndexError, out)
                    else (None,
                          out\<lparr>data :=
                                map (map_option (\<lambda>x. x - 1))
                                  (fold (\<lambda>ii d. grid_shell P ii psi delta_bias chi d)
                                        [0..<nchi] (data out))\<rparr>)))
      | _ \<Rightarrow> (Some (ValueError ''wrong number of values to unpack''), out))"

text \<open>\<open>za_density_sph\<close> asks healpy for \<open>nside\<close> first and validates the shapes after it.\<close>

definition za_density_sph ::
  "pmesh_ext \<Rightarrow> ndarray \<Rightarrow> ndarray \<Rightarrow> ndarray \<Rightarrow> ndarray \<Rightarrow> ndarray \<Rightarrow> error option \<times> ndarray" where
  "za_density_sph P psi delta_bias delta_m chi out =
     (case shape delta_bias of
        [nchi, npix] \<Rightarrow>
          (case npix2nside npix of
             Inl e \<Rightarrow> (Some e, out)
           | Inr nside \<Rightarrow>
               (case validate_shapes psi delta_m chi out nchi npix of
                  Some e \<Rightarrow> (Some e, out)
                | None \<Rightarrow>
                    (None,
                     out\<lparr>data :=
                           map (map_option (\<lambda>x. x - 1))
                             (fold (\<lambda>ii d. sph_shell P ii psi delta_bias delta_m chi d)
                                   [0..<nchi] (data out))\<rparr>)))
      | _ \<Rightarrow> (Some (ValueError ''wrong number of values to unpack''), out))"

text \<open>A stand-in for the shell routines, for statements evaluated at a concrete input.\<close>

definition unit_pmesh :: pmesh_ext where
  "unit_pmesh = \<lparr>grid_shell = (\<lambda>ii psi delta_bias chi d. d),
                 sph_shell = (\<lambda>ii psi delta_bias delta_m chi d. d)\<rparr>"

section \<open>Field containers and pipeline stages\<close>

text \<open>
  Modelled from the spec: the container classes \<open>InitialLSS\<close> and \<open>BiasedLSS\<close>
  (\<open>lsscontainers\<close>) and the \<open>Cosmology\<close> class are not among the sources. A container
  carries its cosmology, the pixel resolution \<open>nside\<close>, the radial axis \<open>chi\<close>, the
  redshift labels of the shells when it has them, the pixel axis, and its datasets
  \<open>delta\<close> (and \<open>phi\<close> for an \<open>InitialLSS\<close>) of shape \<open>(n_shell, n_pixel)\<close>; a
  \<open>BiasedLSS\<close> also carries the attributes \<open>lightcone\<close> and \<open>fixed_redshift\<close>. The axes
  and datasets of a container agree: \<open>chi\<close> and the redshift labels have one entry per
  row of \<open>delta\<close>. The fields are named \<open>lss_chi\<close>, \<open>lss_delta\<close>, \<dots> after the attributes
  \<open>chi\<close>, \<open>delta\<close>, \<dots> of the containers.
\<close>

record cosmology =
  growth_factor :: "real \<Rightarrow> real"
  growth_rate :: "real \<Rightarrow> real"

record lss_container =
  lss_cosmology :: cosmology
  lss_nside :: nat
  lss_chi :: "real list"
  lss_redshift :: "real list option"
  lss_pixel :: "nat list"
  lss_delta :: "npfloat list list"
  lss_phi :: "npfloat list list"
  lss_lightcone :: bool
  lss_fixed_redshift :: "real option"

text \<open>
  Containers are objects: a stage receives and returns references. The store lists the
  objects created so far; a reference is an index into it, and creating an object
  appends it.
\<close>

type_synonym store = "lss_container list"

definition alloc :: "store \<Rightarrow> lss_container \<Rightarrow> nat \<times> store" where
  "alloc h obj = (length h, h @ [obj])"

text \<open>
  Modelled from the spec: \<open>BiasedLSS(axes_from=f, attrs_from=f)\<close> creates a new container
  with the axes and attributes of \<open>f\<close> and a \<open>delta\<close> dataset of its own, of shape
  \<open>(n_shell, n_pixel)\<close>; every stage fills that dataset before it returns.
\<close>

definition new_BiasedLSS :: "lss_container \<Rightarrow> lss_container" where
  "new_BiasedLSS f =
     f\<lparr>lss_delta := replicate (length (lss_chi f)) (replicate (length (lss_pixel f)) (Some 0)), lss_phi := []\<rparr>"

definition np_add :: "npfloat \<Rightarrow> npfloat \<Rightarrow> npfloat" where
  "np_add a b = (case a of None \<Rightarrow> None | Some x \<Rightarrow> map_option (\<lambda>y. x + y) b)"

definition np_sub :: "npfloat \<Rightarrow> npfloat \<Rightarrow> npfloat" where
  "np_sub a b = (case a of None \<Rightarrow> None | Some x \<Rightarrow> map_option (\<lambda>y. x - y) b)"

subsection \<open>Bias (\<open>lss.GenerateBiasedFieldBase.process\<close>)\<close>

text \<open>
  The configuration of the task. A bias order that \<open>_bias_1\<close> or \<open>_bias_2\<close> does not
  implement (\<open>NotImplementedError\<close>, caught by \<open>process\<close>) is \<open>None\<close>; one that is
  implemented is a function of the redshift, applied to every shell.
\<close>

record bias_config =
  cfg_lightcone :: bool
  cfg_redshift :: "real option"
  cfg_lognormal :: bool
  bias_1 :: "(real \<Rightarrow> real) option"
  bias_2 :: "(real \<Rightarrow> real) option"

text \<open>
  \<open>z = f.redshift if self.lightcone else self.redshift * np.ones_like(f.chi)\<close>. Without
  \<open>lightcone\<close> and with no \<open>redshift\<close> configured, \<open>None * array\<close> raises \<open>TypeError\<close>.
\<close>

definition shell_redshifts :: "bias_config \<Rightarrow> lss_container \<Rightarrow> error + real list" where
  "shell_redshifts cfg f =
     (if cfg_lightcone cfg
      then (case lss_redshift f of
              None \<Rightarrow> Inl (ValueError ''no redshift axis'')
            | Some z \<Rightarrow> Inr z)
      else (case cfg_redshift cfg of
              None \<Rightarrow> Inl TypeError
            | Some r \<Rightarrow> Inr (replicate (length (lss_chi f)) r)))"

text \<open>
  The entries of \<open>biased_field.delta\<close>: zero, plus the first-order term
  \<open>(D * b1)[i] * f.delta[i, j]\<close>, plus the second-order term
  \<open>(D ** 2 * b2)[i] * (f.delta[i, j] ** 2 - d2m[i])\<close> with \<open>d2m\<close> the mean of
  \<open>f.delta ** 2\<close> over the pixels of the shell. The pipeline runs in one process, so the
  local offset is zero and the local shape is the whole array.
\<close>

definition biased_delta :: "bias_config \<Rightarrow> lss_container \<Rightarrow> real list \<Rightarrow> npfloat list list" where
  "biased_delta cfg f z =
     map (\<lambda>i.
       let D = np_div (growth_factor (lss_cosmology f) (z ! i)) (growth_factor (lss_cosmology f) 0);
           d2m = np_mean (map (\<lambda>x. np_mul x x) (lss_delta f ! i))
       in map (\<lambda>x.
            let first = (case bias_1 cfg of
                           None \<Rightarrow> Some 0
                         | Some b1 \<Rightarrow> np_add (Some 0) (np_mul (np_mul D (Some (b1 (z ! i)))) x))
            in (case bias_2 cfg of
                  None \<Rightarrow> first
                | Some b2 \<Rightarrow>
                    np_add first
                      (np_mul (np_mul (np_mul D D) (Some (b2 (z ! i)))) (np_sub (np_mul x x) d2m))))
          (lss_delta f ! i))
       [0..<length (lss_delta f)]"

definition GenerateBiasedFieldBase_process ::
  "bias_config \<Rightarrow> store \<Rightarrow> nat \<Rightarrow> error + nat \<times> store" where
  "GenerateBiasedFieldBase_process cfg h f_ref =
     (let f = h ! f_ref;
          biased_field = (new_BiasedLSS f)\<lparr>lss_lightcone := cfg_lightcone cfg,
                                            lss_fixed_redshift := cfg_redshift cfg\<rparr>
      in
      case shell_redshifts cfg f of
        Inl e \<Rightarrow> Inl e
      | Inr z \<Rightarrow>
          let d = biased_delta cfg f z in
          (case (if cfg_lognormal cfg
                 then lognormal_transform d (Some d) (if cfg_lightcone cfg then Some 1 else None)
                 else Inr d) of
             Inl e \<Rightarrow> Inl e
           | Inr d' \<Rightarrow> Inr (alloc h (biased_field\<lparr>lss_delta := d'\<rparr>))))"

text \<open>
  The bias formula of the specification for shell redshifts \<open>z\<close> and a finite Lagrangian
  field \<open>F\<close>: \<open>D(z) b1(z) delta_L + D(z)\<^sup>2 b2(z) (delta_L\<^sup>2 - <delta_L\<^sup>2>)\<close>, with
  \<open>D(z) = g(z) / g(0)\<close> and the mean taken over the pixels of the shell.
\<close>

definition bias_formula ::
  "(real \<Rightarrow> real) \<Rightarrow> (real \<Rightarrow> real) \<Rightarrow> (real \<Rightarrow> real) \<Rightarrow> real list \<Rightarrow> real list list \<Rightarrow> real list list" where
  "bias_formula g b1 b2 z F =
     map (\<lambda>i. map (\<lambda>x. g (z ! i) / g 0 * b1 (z ! i) * x
                       + (g (z ! i) / g 0)\<^sup>2 * b2 (z ! i)
                         * (x\<^sup>2 - (\<Sum>y\<leftarrow>F ! i. y\<^sup>2) / real (length (F ! i))))
                (F ! i))
         [0..<length F]"

subsection \<open>Dynamics (\<open>lss.DynamicsBase\<close>, \<open>lss.LinearDynamics\<close>, \<open>lss.ZeldovichDynamics\<close>)\<close>

record dynamics_config =
  redshift_space :: bool
  sph :: bool

text \<open>
  The routines of \<open>lssutil\<close> and \<open>hputil\<close>, outside the sources. \<open>diff2\<close> is
  \<open>lssutil.diff2(phi, chi, axis=0)\<close>. \<open>displacement\<close> stands for the lines of
  \<open>ZeldovichDynamics.process\<close> that compute \<open>vpsi\<close>: the gradient of \<open>initial_field.phi\<close>
  (\<open>lssutil.gradient\<close>) scaled by the growth factor, by the distance and the polar angle
  (\<open>hputil.ang_positions\<close>) and, in redshift space, by the growth rate. They build arrays
  of their own and write to no container.
\<close>

record lssutil_ext =
  diff2 :: "npfloat list list \<Rightarrow> real list \<Rightarrow> npfloat list list"
  displacement :: "bool \<Rightarrow> lss_container \<Rightarrow> real list \<Rightarrow> real list \<Rightarrow> ndarray"

definition validate_fields :: "lss_container \<Rightarrow> lss_container \<Rightarrow> error option" where
  "validate_fields initial_field biased_field =
     (if lss_chi initial_field \<noteq> lss_chi biased_field
      then Some (ValueError ''Radial axes do not match between initial and biased fields.'')
      else if lss_pixel biased_field \<noteq> lss_pixel initial_field
      then Some (ValueError ''Angular axes do not match between initial and biased fields.'')
      else None)"

text \<open>\<open>_get_props\<close>: the resolution of the pixel axis and the redshift of each shell.\<close>

definition get_props :: "lss_container \<Rightarrow> error + nat \<times> real list" where
  "get_props biased_field =
     (case npix2nside (length (lss_pixel biased_field)) of
        Inl e \<Rightarrow> Inl e
      | Inr ns \<Rightarrow>
          if lss_lightcone biased_field
          then (case lss_redshift biased_field of
                  None \<Rightarrow> Inl (ValueError ''Incoming biased field does not have a redshift label.'')
                | Some za \<Rightarrow> Inr (ns, za))
          else (case lss_fixed_redshift biased_field of
                  None \<Rightarrow> Inl TypeError
                | Some r \<Rightarrow> Inr (ns, replicate (length (lss_chi biased_field)) r)))"

definition growth_D :: "lss_container \<Rightarrow> real list \<Rightarrow> nat \<Rightarrow> npfloat" where
  "growth_D f za i = np_div (growth_factor (lss_cosmology f) (za ! i)) (growth_factor (lss_cosmology f) 0)"

definition LinearDynamics_process ::
  "lssutil_ext \<Rightarrow> dynamics_config \<Rightarrow> store \<Rightarrow> nat \<Rightarrow> nat \<Rightarrow> error + nat \<times> store" where
  "LinearDynamics_process U cfg h initial_ref biased_ref =
     (let initial_field = h ! initial_ref; biased_field = h ! biased_ref in
      case validate_fields initial_field biased_field of
        Some e \<Rightarrow> Inl e
      | None \<Rightarrow>
          (case get_props biased_field of
             Inl e \<Rightarrow> Inl e
           | Inr (ns, za) \<Rightarrow>
               let final_field = new_BiasedLSS biased_field;
                   vterm = diff2 U (lss_phi initial_field) (lss_chi biased_field);
                   d = map (\<lambda>i. map (\<lambda>j.
                         let lin = np_add (lss_delta biased_field ! i ! j)
                                     (np_mul (growth_D biased_field za i)
                                             (lss_delta initial_field ! i ! j))
                         in if redshift_space cfg
                            then np_add lin
                                   (np_mul (vterm ! i ! j)
                                      (map_option (\<lambda>D. - (D * growth_rate (lss_cosmology biased_field) (za ! i)))
                                                  (growth_D biased_field za i)))
                            else lin)
                       [0..<length (lss_pixel biased_field)]) [0..<length (lss_chi biased_field)]
               in Inr (alloc h (final_field\<lparr>lss_delta := d\<rparr>))))"

text \<open>Arrays from the rows of a dataset, and back.\<close>

definition array2 :: "npfloat list list \<Rightarrow> nat \<Rightarrow> ndarray" where
  "array2 rows ncols = \<lparr>shape = [length rows, ncols], data = concat rows\<rparr>"

definition array1 :: "real list \<Rightarrow> ndarray" where
  "array1 xs = \<lparr>shape = [length xs], data = map Some xs\<rparr>"

definition rows_of :: "ndarray \<Rightarrow> nat \<Rightarrow> nat \<Rightarrow> npfloat list list" where
  "rows_of a nrows ncols = map (\<lambda>i. take ncols (drop (i * ncols) (data a))) [0..<nrows]"

definition ZeldovichDynamics_process ::
  "lssutil_ext \<Rightarrow> pmesh_ext \<Rightarrow> dynamics_config \<Rightarrow> store \<Rightarrow> nat \<Rightarrow> nat \<Rightarrow> error + nat \<times> store" where
  "ZeldovichDynamics_process U P cfg h initial_ref biased_ref =
     (let initial_field = h ! initial_ref; biased_field = h ! biased_ref in
      case validate_fields initial_field biased_field of
        Some e \<Rightarrow> Inl e
      | None \<Rightarrow>
          (case get_props biased_field of
             Inl e \<Rightarrow> Inl e
           | Inr (ns, za) \<Rightarrow>
               let nchi = length (lss_chi biased_field);
                   npix = length (lss_pixel biased_field);
                   vpsi = displacement U (redshift_space cfg) initial_field (lss_chi biased_field) za;
                   final_field = (new_BiasedLSS biased_field);
                   delta_m = array2 (map (\<lambda>i. map (\<lambda>x. np_mul x (growth_D biased_field za i))
                                                 (lss_delta initial_field ! i))
                                         [0..<length (lss_delta initial_field)]) npix;
                   delta_bias = array2 (lss_delta biased_field) npix;
                   out = array2 (lss_delta final_field) npix;
                   (err, out') =
                     (if sph cfg
                      then za_density_sph P vpsi delta_bias delta_m (array1 (lss_chi biased_field)) out
                      else za_density_grid P vpsi delta_bias delta_m (array1 (lss_chi biased_field)) out)
               in (case err of
                     Some e \<Rightarrow> Inl e
                   | None \<Rightarrow> Inr (alloc h (final_field\<lparr>lss_delta := rows_of out' nchi npix\<rparr>)))))"

subsection \<open>Fingers of God (\<open>lss.FingersOfGod.process\<close>)\<close>

record fog_config =
  alpha_FoG :: real
  sigma_P :: "real \<Rightarrow> real"

text \<open>
  \<open>np.matmul(K, delta, out=...)\<close> for a matrix \<open>K\<close> and a dataset of \<open>ncols\<close> columns;
  \<open>ValueError\<close> unless every row of \<open>K\<close> is as long as the dataset has rows.
\<close>

definition np_matmul :: "npfloat list list \<Rightarrow> npfloat list list \<Rightarrow> nat \<Rightarrow> error + npfloat list list" where
  "np_matmul K A ncols =
     (if \<exists>row\<in>set K. length row \<noteq> length A
      then Inl (ValueError ''matmul: mismatch in the core dimension'')
      else Inr (map (\<lambda>row. map (\<lambda>c. np_sum (map (\<lambda>j. np_mul (row ! j) (A ! j ! c)) [0..<length A]))
                              [0..<ncols]) K))"

definition FingersOfGod_process :: "fog_config \<Rightarrow> store \<Rightarrow> nat \<Rightarrow> error + nat \<times> store" where
  "FingersOfGod_process cfg h field_ref =
     (let field = h ! field_ref in
      if alpha_FoG cfg = 0 then Inr (field_ref, h)
      else
        case lss_redshift field of
          None \<Rightarrow> Inl (ValueError ''no redshift axis'')
        | Some z \<Rightarrow>
            let D = map (growth_factor (lss_cosmology field)) z;
                sigmaP = map (sigma_P cfg) z
            in
            (case exponential_FoG_kernel (lss_chi field)
                    (Array (map (\<lambda>s. alpha_FoG cfg * s) sigmaP)) (Array D) of
               Inl e \<Rightarrow> Inl e
             | Inr K \<Rightarrow>
                 let smoothed_field = new_BiasedLSS field in
                 (case np_matmul K (lss_delta field) (length (lss_pixel field)) of
                    Inl e \<Rightarrow> Inl e
                  | Inr d \<Rightarrow> Inr (alloc h (smoothed_field\<lparr>lss_delta := d\<rparr>)))))"

subsection \<open>Shot noise (\<open>lss.AddCorrelatedShotNoise.process\<close>)\<close>

text \<open>
  \<open>n_eff_z\<close> is the effective number density per shell that \<open>setup\<close> stores; \<open>normals\<close>
  are the standard normal deviates that the task's generator draws, one per entry of the
  field; \<open>pixarea\<close> is \<open>healpy.nside2pixarea\<close>. The noise of shell \<open>i\<close> has the standard
  deviation \<open>(volume[i] * n_eff_z[i]) ** -0.5\<close>, not a number unless the product is
  positive.
\<close>

record shot_noise_config =
  n_eff_z :: "real list"
  normals :: "nat \<Rightarrow> nat \<Rightarrow> real"
  pixarea :: "nat \<Rightarrow> real"

definition AddCorrelatedShotNoise_process ::
  "shot_noise_config \<Rightarrow> store \<Rightarrow> nat \<Rightarrow> error + nat \<times> store" where
  "AddCorrelatedShotNoise_process cfg h input_ref =
     (let input_field = h ! input_ref in
      case calculate_width (lss_chi input_field) of
        Inl e \<Rightarrow> Inl e
      | Inr width \<Rightarrow>
          let std = (\<lambda>i. let volume = pixarea cfg (lss_nside input_field) * (lss_chi input_field ! i)\<^sup>2
                                        * width ! i;
                              x = volume * n_eff_z cfg ! i
                          in if x \<le> 0 then None else Some (x powr (- 1 / 2)));
              d = map (\<lambda>i. map (\<lambda>j. np_add (lss_delta input_field ! i ! j)
                                         (np_mul (std i) (Some (normals cfg i j))))
                             [0..<length (lss_delta input_field ! i)])
                      [0..<length (lss_delta input_field)]
          in Inr (input_ref, h[input_ref := input_field\<lparr>lss_delta := d\<rparr>]))"

text \<open>Stand-ins for the external routines, for statements evaluated at a concrete input.\<close>

definition unit_lssutil :: lssutil_ext where
  "unit_lssutil = \<lparr>diff2 = (\<lambda>phi chi. phi),
                   displacement = (\<lambda>rs f chi za.
                      zeros [3, length chi, length (lss_pixel f)])\<rparr>"

text \<open>
  A small initial field for statements evaluated at a concrete input: one pixel
  resolution \<open>nside = 1\<close> (12 pixels), shells at distances \<open>1, 2, 3\<close> labelled with the
  redshifts \<open>1, 2, 3\<close>, a density contrast of \<open>1\<close> everywhere, and a cosmology whose
  growth factor is \<open>1 / (1 + z)\<close>.
\<close>

definition example_cosmology :: cosmology where
  "example_cosmology = \<lparr>growth_factor = (\<lambda>z. 1 / (1 + z)), growth_rate = (\<lambda>z. 1)\<rparr>"

definition example_field :: lss_container where
  "example_field =
     \<lparr>lss_cosmology = example_cosmology, lss_nside = 1, lss_chi = [1, 2, 3],
      lss_redshift = Some [1, 2, 3], lss_pixel = [0..<12],
      lss_delta = finite_field (replicate 3 (replicate 12 1)),
      lss_phi = finite_field (replicate 3 (replicate 12 0)),
      lss_lightcone = True, lss_fixed_redshift = None\<rparr>"

text \<open>A constant first-order bias of 1, no second-order term, all shells at redshift 0.\<close>

definition example_fixed_epoch_bias :: bias_config where
  "example_fixed_epoch_bias =
     \<lparr>cfg_lightcone = False, cfg_redshift = Some 0, cfg_lognormal = False,
      bias_1 = Some (\<lambda>z. 1), bias_2 = Some (\<lambda>z. 0)\<rparr>"

text \<open>
  A call that starts in the store \<open>h\<close> returns a new object: the reference \<open>r\<close> it
  returns is to an object that the call created, and every object of \<open>h\<close> is in the
  store \<open>h'\<close> after the call as it was before.
\<close>

definition new_object :: "store \<Rightarrow> nat \<Rightarrow> store \<Rightarrow> bool" where
  "new_object h r h' \<longleftrightarrow> r = length h \<and> length h' = Suc (length h) \<and> take (length h) h' = h"

text \<open>A biased field on the axes of the example field, and task configurations.\<close>

definition example_biased :: lss_container where
  "example_biased = example_field\<lparr>lss_phi := []\<rparr>"

definition example_fog :: "real \<Rightarrow> fog_config" where
  "example_fog alpha = \<lparr>alpha_FoG = alpha, sigma_P = (\<lambda>z. 1)\<rparr>"

definition example_shot_noise :: shot_noise_config where
  "example_shot_noise = \<lparr>n_eff_z = [1, 1, 1], normals = (\<lambda>i j. 0), pixarea = (\<lambda>nside. 1)\<rparr>"

section \<open>Power spectrum to correlation function (\<open>corrfunc.ps_to_corr\<close>)\<close>

text \<open>
  \<^item> \<open>int(x)\<close> of a float truncates towards zero.
  \<^item> \<open>np.logspace\<close> raises \<open>ValueError\<close> for a negative number of samples.
  \<^item> \<open>xs[start::step]\<close> for \<open>start \<ge> 0\<close> and \<open>step \<ge> 1\<close> keeps the entries at
    \<open>start, start + step, \<dots>\<close> below \<open>len(xs)\<close>.
  \<^item> \<open>np.allclose(a, b)\<close> is \<open>|a - b| \<le> 1e-8 + 1e-5 |b|\<close> at every entry, after
    broadcasting; shapes that do not broadcast raise \<open>ValueError\<close>.
  \<^item> \<open>xs[mask]\<close> with a boolean mask keeps the entries where the mask holds, and raises
    \<open>IndexError\<close> when the two lengths differ.
\<close>

definition py_int :: "real \<Rightarrow> int" where
  "py_int x = (if 0 \<le> x then \<lfloor>x\<rfloor> else \<lceil>x\<rceil>)"

definition np_logspace :: "real \<Rightarrow> real \<Rightarrow> int \<Rightarrow> bool \<Rightarrow> error + real list" where
  "np_logspace start stop num endpoint =
     (if num < 0 then Inl (ValueError ''Number of samples must be non-negative.'')
      else Inr (logspace start stop (nat num) endpoint))"

definition slice_from_step :: "nat \<Rightarrow> nat \<Rightarrow> 'a list \<Rightarrow> 'a list" where
  "slice_from_step start step xs =
     map (\<lambda>m. xs ! (start + m * step)) [0..<(length xs + step - 1 - start) div step]"

definition isclose :: "real \<Rightarrow> real \<Rightarrow> bool" where
  "isclose a b \<longleftrightarrow> \<bar>a - b\<bar> \<le> 1 / 10 ^ 8 + 1 / 10 ^ 5 * \<bar>b\<bar>"

definition np_allclose :: "real list \<Rightarrow> real list \<Rightarrow> error + bool" where
  "np_allclose a b =
     (if length a = length b then Inr (list_all2 isclose a b)
      else if length a = 1 then Inr (list_all (\<lambda>y. isclose (a ! 0) y) b)
      else if length b = 1 then Inr (list_all (\<lambda>x. isclose x (b ! 0)) a)
      else Inl (ValueError ''operands could not be broadcast together''))"

definition boolean_index :: "bool list \<Rightarrow> 'a list \<Rightarrow> error + 'a list" where
  "boolean_index keep xs =
     (if length keep \<noteq> length xs then Inl IndexError
      else Inr (map snd (filter fst (zip keep xs))))"

text \<open>A list comprehension whose body may raise: the first exception ends it.\<close>

fun all_or_raise :: "(error + 'a) list \<Rightarrow> error + 'a list" where
  "all_or_raise [] = Inr []"
| "all_or_raise (Inl e # xs) = Inl e"
| "all_or_raise (Inr x # xs) = (case all_or_raise xs of Inl e \<Rightarrow> Inl e | Inr ys \<Rightarrow> Inr (x # ys))"

text \<open>
  The two transform libraries.
  \<^item> \<open>P2xi k P\<close> stands for \<open>hankl.P2xi(k, P, 0, lowring=False)\<close>: it returns the radii and
    the complex correlation function, or raises.
  \<^item> \<open>sft_transform h func r\<close> stands for
    \<open>hankel.SymmetricFourierTransform(ndim=3, N=np.pi / h, h=h).transform(func, r, ret_err=False)\<close>.
\<close>

type_synonym npcomplex = "npfloat \<times> npfloat"

record hankl_ext =
  P2xi :: "real list \<Rightarrow> npfloat list \<Rightarrow> error + real list \<times> npcomplex list"

record hankel_ext =
  sft_transform :: "real \<Rightarrow> (real list \<Rightarrow> npfloat list) \<Rightarrow> real list \<Rightarrow> npfloat list"

subsection \<open>\<open>_corr_direct\<close>\<close>

definition np_sinc :: "real \<Rightarrow> real" where
  "np_sinc x = (if x = 0 then 1 else sin (pi * x) / (pi * x))"

definition corr_direct ::
  "scipy_ext \<Rightarrow> (real list \<Rightarrow> npfloat list) \<Rightarrow> real \<Rightarrow> real \<Rightarrow> real list \<Rightarrow> nat \<Rightarrow> npfloat list" where
  "corr_direct S psfunc log_k0 log_k1 r k =
     (let ka = logspace log_k0 log_k1 (2 ^ k + 1) True;
          dlk = ln (ka ! 1 / ka ! 0);
          ps = psfunc ka;
          integrand = (\<lambda>ri. map (\<lambda>j. np_mul (ps ! j)
                                 (Some ((ka ! j) ^ 3 / (2 * pi\<^sup>2) * np_sinc (ka ! j * ri / pi))))
                              [0..<length ka])
      in map (\<lambda>ri. np_mul (romb S (integrand ri) 1) (Some dlk)) r)"

subsection \<open>\<open>_corr_hankel\<close>\<close>

definition corr_hankel ::
  "hankel_ext \<Rightarrow> (real list \<Rightarrow> npfloat list) \<Rightarrow> real \<Rightarrow> real \<Rightarrow> real \<Rightarrow> real
     \<Rightarrow> error + real list \<times> npfloat list" where
  "corr_hankel H func logrmin logrmax samples_per_decade h =
     (case np_logspace logrmin logrmax (py_int ((logrmax - logrmin) * samples_per_decade) + 1) True of
        Inl e \<Rightarrow> Inl e
      | Inr r \<Rightarrow>
          Inr (r, map (\<lambda>v. map_option (\<lambda>x. x / (2 * pi) ^ 3) v) (sft_transform H h func r)))"

subsection \<open>\<open>_corr_hankl_richardson\<close>\<close>

text \<open>
  \<open>work\<close> is the inner function \<open>_work(ii)\<close>; \<open>rlow\<close>, \<open>rhigh\<close> and \<open>n\<close> are the
  variables of the enclosing function that it reads.
\<close>

definition work ::
  "hankl_ext \<Rightarrow> (real list \<Rightarrow> npfloat list) \<Rightarrow> real \<Rightarrow> real \<Rightarrow> int \<Rightarrow> nat
     \<Rightarrow> error + real list \<times> npfloat list" where
  "work E func rlow rhigh n ii =
     (let u = 2 ^ ii in
      case np_logspace (- rhigh) (- rlow) (n * int u) False of
        Inl e \<Rightarrow> Inl e
      | Inr k \<Rightarrow>
          (case P2xi E k (func k) of
             Inl e \<Rightarrow> Inl e
           | Inr (r, xi) \<Rightarrow>
               Inr (slice_from_step (u - 1) u r, slice_from_step (u - 1) u (map fst xi))))"

text \<open>The loop \<open>for r in rs[1:]: assert np.allclose(r, rs[0])\<close>.\<close>

fun assert_allclose :: "real list list \<Rightarrow> real list \<Rightarrow> error option" where
  "assert_allclose [] r0 = None"
| "assert_allclose (r # rs) r0 =
     (case np_allclose r r0 of
        Inl e \<Rightarrow> Some e
      | Inr ok \<Rightarrow> if ok then assert_allclose rs r0 else Some AssertionError)"

text \<open>
  \<open>richardson(estimates, 2.0)\<close> on a list of arrays of one length works entry by entry;
  an entry that is \<open>nan\<close> in one of the estimates is \<open>nan\<close> in the result.
\<close>

definition richardson_apex :: "real list \<Rightarrow> real \<Rightarrow> error + real" where
  "richardson_apex es t =
     (case richardson es t 1 False of
        Inl e \<Rightarrow> Inl e
      | Inr (Apex a) \<Rightarrow> Inr a
      | Inr (Table tb) \<Rightarrow> Inl TypeError)"

definition richardson_arrays :: "npfloat list list \<Rightarrow> real \<Rightarrow> error + npfloat list" where
  "richardson_arrays estimates t =
     (if estimates = [] then Inl IndexError
      else all_or_raise
             (map (\<lambda>j. case those (map (\<lambda>e. e ! j) estimates) of
                          None \<Rightarrow> Inr None
                        | Some es \<Rightarrow> map_sum id Some (richardson_apex es t))
                  [0..<length (hd estimates)]))"

definition corr_hankl_richardson ::
  "hankl_ext \<Rightarrow> (real list \<Rightarrow> npfloat list) \<Rightarrow> real \<Rightarrow> real \<Rightarrow> real \<Rightarrow> int \<Rightarrow> real \<Rightarrow> real
     \<Rightarrow> error + real list \<times> npfloat list" where
  "corr_hankl_richardson E func logrmin logrmax samples_per_decade richardson_n pad_low pad_high =
     (let rlow = logrmin - pad_low;
          rhigh = logrmax + pad_high;
          n = py_int (samples_per_decade * (rhigh - rlow))
      in case all_or_raise (map (work E func rlow rhigh n) [0..<nat richardson_n]) of
           Inl e \<Rightarrow> Inl e
         | Inr [] \<Rightarrow> Inl (ValueError ''not enough values to unpack (expected 2, got 0)'')
         | Inr ((rs0, e0) # rest) \<Rightarrow>
             (case assert_allclose (map fst rest) rs0 of
                Some e \<Rightarrow> Inl e
              | None \<Rightarrow>
                  let keep = map (\<lambda>r. 0 < r \<and> logrmin \<le> log 10 r \<and> log 10 r \<le> logrmax) rs0 in
                  case boolean_index keep rs0 of
                    Inl e \<Rightarrow> Inl e
                  | Inr r \<Rightarrow>
                      (case all_or_raise (map (boolean_index keep) (e0 # map snd rest)) of
                         Inl e \<Rightarrow> Inl e
                       | Inr estimates \<Rightarrow>
                           (case richardson_arrays estimates 2 of
                              Inl e \<Rightarrow> Inl e
                            | Inr F \<Rightarrow> Inr (r, F)))))"

subsection \<open>\<open>ps_to_corr\<close>\<close>

text \<open>
  The keyword arguments that \<open>ps_to_corr\<close> passes on: \<open>richardson_n\<close>, \<open>pad_low\<close> and
  \<open>pad_high\<close> for \<open>_corr_hankl_richardson\<close>, \<open>h\<close> for \<open>_corr_hankel\<close>.
  \<open>default_kwargs\<close> are the defaults of the two functions.
\<close>

record corr_kwargs =
  kw_richardson_n :: int
  kw_pad_low :: real
  kw_pad_high :: real
  kw_h :: real

definition default_kwargs :: corr_kwargs where
  "default_kwargs = \<lparr>kw_richardson_n = 6, kw_pad_low = 2, kw_pad_high = 1, kw_h = 1 / 10 ^ 5\<rparr>"

definition ps_to_corr ::
  "scipy_ext \<Rightarrow> hankl_ext \<Rightarrow> hankel_ext \<Rightarrow> (real list \<Rightarrow> npfloat list) \<Rightarrow> real \<Rightarrow> real \<Rightarrow> real
     \<Rightarrow> real \<Rightarrow> bool \<Rightarrow> corr_kwargs \<Rightarrow> error + real list \<times> npfloat list" where
  "ps_to_corr S E H psfunc minlogr maxlogr switchlogr samples_per_decade fftlog kwargs =
     (case np_logspace minlogr switchlogr (py_int ((switchlogr - minlogr) * samples_per_decade)) False of
        Inl e \<Rightarrow> Inl e
      | Inr rlow \<Rightarrow>
          (case (if fftlog
                 then corr_hankl_richardson E psfunc switchlogr maxlogr samples_per_decade
                        (kw_richardson_n kwargs) (kw_pad_low kwargs) (kw_pad_high kwargs)
                 else corr_hankel H psfunc switchlogr maxlogr samples_per_decade (kw_h kwargs)) of
             Inl e \<Rightarrow> Inl e
           | Inr (rhigh, Fhigh) \<Rightarrow>
               let rlow0 = 0 # rlow;
                   Flow = corr_direct S psfunc (- 5) 3 rlow0 16
               in Inr (rlow0 @ rhigh, Flow @ Fhigh)))"

text \<open>Stand-ins for the two transform libraries and a flat power spectrum, for the examples.\<close>

definition unit_hankl :: hankl_ext where
  "unit_hankl = \<lparr>P2xi = (\<lambda>k P. Inr (map (\<lambda>x. 1 / x) (rev k),
                                       map (\<lambda>x. (Some (1 / x), Some 0)) (rev k)))\<rparr>"

definition unit_hankel :: hankel_ext where
  "unit_hankel = \<lparr>sft_transform = (\<lambda>h func r. func r)\<rparr>"

definition flat_spectrum :: "real list \<Rightarrow> npfloat list" where
  "flat_spectrum k = map (\<lambda>x. Some 1) k"

section \<open>Properties of Richardson extrapolation\<close>


lemma powi_gt_one: "1 < (t::real) \<Longrightarrow> 0 < p \<Longrightarrow> 1 < t powi p"
  by (metis power_int_0_right power_int_strict_increasing)

lemma series_step:
  assumes t: "1 < t" and p: "0 < p"
  shows "(t powi p * series L c h0 t p (Suc i) - series L c h0 t p i) / (t powi p - 1) = L"
proof -
  have t0: "t \<noteq> 0" using t by simp
  have tp: "t powi p \<noteq> 0" using t0 by simp
  have ne: "t powi p - 1 \<noteq> 0" using powi_gt_one[OF t p] by simp
  have "h0 / t ^ Suc i = (h0 / t ^ i) / t" by simp
  then have "(h0 / t ^ Suc i) powi p = (h0 / t ^ i) powi p / t powi p"
    by (simp only: power_int_divide_distrib)
  then have "t powi p * series L c h0 t p (Suc i) - series L c h0 t p i = (t powi p - 1) * L"
    using tp t0 by (simp add: series_def algebra_simps)
  then show ?thesis using ne by simp
qed

lemma apex_step:
  fixes t L :: real
  assumes "1 < t" "0 < n"
  shows "(t powi n * L - L) / (t powi n - 1) = L"
proof -
  have "t powi n - 1 \<noteq> 0" using powi_gt_one[OF assms] by simp
  moreover have "t powi n * L - L = (t powi n - 1) * L" by (simp add: algebra_simps)
  ultimately show ?thesis by simp
qed

text \<open>
  Claim C3. For every limit \<open>L\<close>, coefficient \<open>c\<close>, initial step \<open>h0\<close>, ratio \<open>t > 1\<close> and
  error power \<open>p > 0\<close>, \<open>richardson\<close> with \<open>base_pow = p\<close> and \<open>return_table = False\<close> on
  the three estimates \<open>L + c (h0 / t\<^sup>i)\<^sup>p\<close> returns \<open>L\<close>, and that value is the apex (row 2,
  column 2) of the three-row table that \<open>return_table = True\<close> returns.
\<close>

theorem richardson_apex_exact:
  assumes t: "1 < t" and p: "0 < p"
  shows "richardson [series L c h0 t p 0, series L c h0 t p 1, series L c h0 t p 2] t p False
           = Inr (Apex L)
       \<and> (\<exists>table. richardson [series L c h0 t p 0, series L c h0 t p 1, series L c h0 t p 2] t p True
                      = Inr (Table table)
                  \<and> length table = 3 \<and> table ! 2 ! 2 = L)"
proof -
  have t0: "t \<noteq> 0" using t by simp
  have ne1: "t powi p \<noteq> 1" using powi_gt_one[OF t p] by simp
  have p2: "0 < 2 * p" using p by simp
  have ne2: "t powi (2 * p) \<noteq> 1" using powi_gt_one[OF t p2] by simp
  have s1: "(t powi p * series L c h0 t p (Suc 0) - series L c h0 t p 0) / (t powi p - 1) = L"
    using series_step[OF t p, of L c h0 0] by simp
  have s2: "(t powi p * series L c h0 t p 2 - series L c h0 t p (Suc 0)) / (t powi p - 1) = L"
    using series_step[OF t p, of L c h0 1] by (simp add: numeral_2_eq_2)
  have s3: "(t powi (2 * p) * L - L) / (t powi (2 * p) - 1) = L"
    by (rule apex_step[OF t p2])
  have tbl: "build_table [series L c h0 t p 0, series L c h0 t p 1, series L c h0 t p 2] t p [0..<3] []
      = Inr [[series L c h0 t p 0], [series L c h0 t p 1, L], [series L c h0 t p 2, L, L]]"
    using t0 ne1 ne2 s1 s2 s3 by (simp add: upt_conv_Cons py_pow_def Let_def)
  have len: "length [series L c h0 t p 0, series L c h0 t p 1, series L c h0 t p 2] = 3"
    by simp
  show ?thesis unfolding richardson_def Let_def len tbl by simp
qed

theorem richardson_apex_exact_witness:
  "(1::real) < 2 \<and> (0::int) < 1 \<and>
   richardson [series 5 3 1 2 1 0, series 5 3 1 2 1 1, series 5 3 1 2 1 2] 2 1 False = Inr (Apex 5)"
  using richardson_apex_exact[of 2 1 5 3 1] by simp

section \<open>Properties of the angular covariance\<close>


lemma those_map_upt:
  "those (map g xs) = (if \<forall>x\<in>set xs. g x \<noteq> None then Some (map (\<lambda>x. the (g x)) xs) else None)"
  by (induction xs) (auto split: option.splits)

lemma romb_upt:
  "romb E (map g [0..<n]) dx =
     (if \<forall>k<n. g k \<noteq> None
      then Some (dx * (\<Sum>k<n. romb_weights E n ! k * the (g k)))
      else None)"
proof (cases "\<forall>k<n. g k \<noteq> None")
  case True
  then have th: "those (map g [0..<n]) = Some (map (\<lambda>x. the (g x)) [0..<n])"
    by (simp add: those_map_upt)
  have "(\<Sum>k\<leftarrow>[0..<n]. romb_weights E n ! k * map (\<lambda>x. the (g x)) [0..<n] ! k)
      = (\<Sum>k\<leftarrow>[0..<n]. romb_weights E n ! k * the (g k))"
    by (rule arg_cong[where f = sum_list], rule map_cong) simp_all
  also have "\<dots> = (\<Sum>k<n. romb_weights E n ! k * the (g k))"
    by (simp add: interv_sum_list_conv_sum_set_nat atLeast0LessThan)
  finally show ?thesis using True by (simp add: romb_def th)
next
  case False
  then have "those (map g [0..<n]) = None"
    by (auto simp: those_map_upt)
  then show ?thesis using False by (simp add: romb_def)
qed


lemma romb_double:
  "romb E (map (\<lambda>p. romb E (map (\<lambda>q. f p q) [0..<n]) dx) [0..<n]) dx =
     (if \<forall>p<n. \<forall>q<n. f p q \<noteq> None
      then Some (dx * (\<Sum>p<n. romb_weights E n ! p *
                         (dx * (\<Sum>q<n. romb_weights E n ! q * the (f p q)))))
      else None)"
proof -
  let ?W = "romb_weights E n"
  let ?g = "\<lambda>p. romb E (map (\<lambda>q. f p q) [0..<n]) dx"
  have g: "?g p = (if \<forall>q<n. f p q \<noteq> None
                   then Some (dx * (\<Sum>q<n. ?W ! q * the (f p q))) else None)" for p
    by (rule romb_upt)
  have outer: "romb E (map ?g [0..<n]) dx =
     (if \<forall>p<n. ?g p \<noteq> None then Some (dx * (\<Sum>p<n. ?W ! p * the (?g p))) else None)"
    by (rule romb_upt)
  show ?thesis
  proof (cases "\<forall>p<n. \<forall>q<n. f p q \<noteq> None")
    case True
    then have some: "\<forall>p<n. ?g p = Some (dx * (\<Sum>q<n. ?W ! q * the (f p q)))"
      by (simp only: g) simp
    then have ne: "\<forall>p<n. ?g p \<noteq> None" by simp
    have "(\<Sum>p<n. ?W ! p * the (?g p)) = (\<Sum>p<n. ?W ! p * (dx * (\<Sum>q<n. ?W ! q * the (f p q))))"
      by (rule sum.cong) (use some in simp_all)
    then show ?thesis using True ne by (simp only: outer) simp
  next
    case False
    then obtain p q where pq: "p < n" "q < n" "f p q = None" by blast
    then have "?g p = None" by (simp only: g) auto
    then have "\<not> (\<forall>p<n. ?g p \<noteq> None)" using pq(1) by blast
    then show ?thesis using False by (simp only: outer) simp
  qed
qed

lemma romb_double_swap:
  "romb E (map (\<lambda>p. romb E (map (\<lambda>q. f p q) [0..<n]) dx) [0..<n]) dx
 = romb E (map (\<lambda>p. romb E (map (\<lambda>q. f q p) [0..<n]) dx) [0..<n]) dx"
proof -
  let ?W = "romb_weights E n"
  have "(\<Sum>p<n. ?W ! p * (dx * (\<Sum>q<n. ?W ! q * the (f p q))))
      = (\<Sum>p<n. \<Sum>q<n. dx * (?W ! p * ?W ! q * the (f p q)))"
    by (simp add: sum_distrib_left mult_ac)
  also have "\<dots> = (\<Sum>q<n. \<Sum>p<n. dx * (?W ! p * ?W ! q * the (f p q)))"
    by (rule sum.swap)
  also have "\<dots> = (\<Sum>q<n. ?W ! q * (dx * (\<Sum>p<n. ?W ! p * the (f p q))))"
    by (simp add: sum_distrib_left mult_ac)
  finally have eq: "(\<Sum>p<n. ?W ! p * (dx * (\<Sum>q<n. ?W ! q * the (f p q))))
      = (\<Sum>q<n. ?W ! q * (dx * (\<Sum>p<n. ?W ! p * the (f p q))))" .
  have c: "(\<forall>p<n. \<forall>q<n. f p q \<noteq> None) = (\<forall>p<n. \<forall>q<n. f q p \<noteq> None)" by blast
  show ?thesis
    unfolding romb_double[of E f n dx] romb_double[of E "\<lambda>p q. f q p" n dx] c eq ..
qed

lemma rc_sep_commute: "rc_sep ms x1 x2 = rc_sep ms x2 x1"
  by (simp add: rc_sep_def power2_commute mult.commute mult.left_commute)

lemma corr1_node_nth:
  "i < xlen \<Longrightarrow> j < xlen \<Longrightarrow>
   corr1_node E corr xa xlen integ ms ! i ! j =
     (case integ of
         None \<Rightarrow> map_option corr (rc_sep ms (xa ! i) (xa ! j))
       | Some (xint, xspace, xhalf) \<Rightarrow>
           (case romb E
                   (map (\<lambda>p. romb E
                              (map (\<lambda>q. map_option corr
                                           (rc_sep ms (xa ! (i * xint + p)) (xa ! (j * xint + q))))
                                   [0..<xint])
                              xspace)
                        [0..<xint])
                   xspace of
              None \<Rightarrow> None
            | Some v \<Rightarrow> np_div v ((2 * xhalf)\<^sup>2)))"
  by (cases integ) (auto simp: corr1_node_def)

lemma corr1_node_sym:
  assumes "i < xlen" "j < xlen"
  shows "corr1_node E corr xa xlen integ ms ! i ! j = corr1_node E corr xa xlen integ ms ! j ! i"
proof (cases integ)
  case None
  then show ?thesis using assms by (simp add: corr1_node_nth rc_sep_commute)
next
  case (Some t)
  obtain xint xspace xhalf where t: "t = (xint, xspace, xhalf)" by (cases t) auto
  have "romb E (map (\<lambda>p. romb E (map (\<lambda>q. map_option corr
                   (rc_sep ms (xa ! (i * xint + p)) (xa ! (j * xint + q)))) [0..<xint]) xspace)
                 [0..<xint]) xspace
      = romb E (map (\<lambda>p. romb E (map (\<lambda>q. map_option corr
                   (rc_sep ms (xa ! (j * xint + p)) (xa ! (i * xint + q)))) [0..<xint]) xspace)
                 [0..<xint]) xspace"
    by (subst romb_double_swap) (simp add: rc_sep_commute)
  then show ?thesis using assms Some t by (simp add: corr1_node_nth)
qed


lemma concat_split_sizes:
  "sum_list sizes = length xs \<Longrightarrow> concat (split_sizes xs sizes) = xs"
proof (induction sizes arbitrary: xs)
  case Nil
  then show ?case by simp
next
  case (Cons s ss)
  then have "sum_list ss = length (drop s xs)" by simp
  then have "concat (split_sizes (drop s xs) ss) = drop s xs" by (rule Cons.IH)
  then show ?case by simp
qed

lemma array_split_concat:
  assumes "array_split ary n = Inr secs"
  shows "concat secs = ary"
proof -
  have n: "0 < n" using assms by (auto simp: array_split_def split: if_splits)
  let ?N = "nat n"
  let ?sizes = "replicate (length ary mod ?N) (length ary div ?N + 1)
              @ replicate (?N - length ary mod ?N) (length ary div ?N)"
  have N: "0 < ?N" using n by simp
  have secs: "secs = split_sizes ary ?sizes"
    using assms n by (simp add: array_split_def Let_def)
  have le: "length ary mod ?N \<le> ?N" using N by (simp add: less_imp_le)
  have "sum_list ?sizes = (length ary mod ?N) * (length ary div ?N + 1)
                        + (?N - length ary mod ?N) * (length ary div ?N)"
    by (simp add: sum_list_replicate)
  also have "\<dots> = length ary mod ?N + ((length ary mod ?N) + (?N - length ary mod ?N)) * (length ary div ?N)"
    by (simp add: algebra_simps)
  also have "\<dots> = length ary mod ?N + ?N * (length ary div ?N)"
    using le by simp
  also have "\<dots> = length ary" by simp
  finally have "sum_list ?sizes = length ary" .
  then show ?thesis unfolding secs by (rule concat_split_sizes)
qed

lemma fold_update_nth:
  "fold (\<lambda>m a. a[m := node m]) ms a ! k =
     (if k \<in> set ms \<and> k < length a then node k else a ! k)"
proof (induction ms arbitrary: a)
  case Nil
  then show ?case by simp
next
  case (Cons m ms)
  show ?case
  proof (cases "m < length a")
    case True
    then show ?thesis by (simp add: Cons.IH nth_list_update)
  next
    case False
    then have "a[m := node m] = a" by (simp add: list_update_beyond)
    then show ?thesis using False by (auto simp add: Cons.IH)
  qed
qed

lemma foldl_fill_batch:
  "foldl (fill_batch node) a secs = fold (\<lambda>m a. a[m := node m]) (concat secs) a"
  by (induction secs arbitrary: a) (simp_all add: fill_batch_def)

lemma corr_array_nth:
  assumes "array_split [0..<M] n = Inr secs" and "m < M"
  shows "foldl (fill_batch node) (replicate M z) secs ! m = node m"
proof -
  have "concat secs = [0..<M]" using assms(1) by (rule array_split_concat)
  then show ?thesis using assms(2) by (simp add: foldl_fill_batch fold_update_nth)
qed


lemma corr_to_clarray_Inr:
  assumes "corr_to_clarray E corr lmax xarray xromb xwidth q = Inr clxx"
  obtains mu w wsum xa integ secs lm where
    "1 \<le> q * lmax"
    "roots_legendre E (nat (q * lmax)) = (mu, w, wsum)"
    "array_split [0..<nat (q * lmax)] (q * lmax div 50) = Inr secs"
    "legendre_array E lmax mu = Inr lm"
    "clxx = map (\<lambda>l. map (\<lambda>i. map (\<lambda>j.
               np_sum (map (\<lambda>m.
                  np_mul (np_mul (Some (lm ! l ! m)) (np_div (w ! m * 4 * pi) wsum))
                    (foldl (fill_batch (\<lambda>m. corr1_node E corr xa (length xarray) integ (mu ! m)))
                       (replicate (nat (q * lmax))
                          (replicate (length xarray) (replicate (length xarray) (Some 0))))
                       secs ! m ! i ! j))
                  [0..<nat (q * lmax)]))
               [0..<length xarray]) [0..<length xarray]) [0..<nat (lmax + 1)]"
proof -
  obtain mu w wsum where rl: "roots_legendre E (nat (q * lmax)) = (mu, w, wsum)"
    by (cases "roots_legendre E (nat (q * lmax))") auto
  show ?thesis
    using assms rl that[of mu w wsum]
    by (auto simp: corr_to_clarray_def Let_def split: if_splits sum.splits prod.splits)
qed


text \<open>
  Claim C4. Whenever \<open>corr_to_clarray\<close> returns an array \<open>clxx\<close>, the entries
  \<open>clxx[l, i, j]\<close> and \<open>clxx[l, j, i]\<close> are the same value, for every multipole
  \<open>l \<le> lmax\<close> and all \<open>i\<close>, \<open>j\<close> below the number of distances, whatever the
  correlation function, the distances, \<open>xromb\<close>, \<open>xwidth\<close> and \<open>q\<close> are. The entries are
  compared as values of the embedding: where a zero half bin width makes every entry
  \<open>0 / 0\<close>, the entry at the transposed position is not a number either.
\<close>

theorem corr_to_clarray_symmetric:
  assumes ret: "corr_to_clarray E corr lmax xarray xromb xwidth q = Inr clxx"
    and l: "l < nat (lmax + 1)" and i: "i < length xarray" and j: "j < length xarray"
  shows "clxx ! l ! i ! j = clxx ! l ! j ! i"
proof -
  from ret obtain mu w wsum xa integ secs lm where
    M: "1 \<le> q * lmax" and
    secs: "array_split [0..<nat (q * lmax)] (q * lmax div 50) = Inr secs" and
    clxx: "clxx = map (\<lambda>l. map (\<lambda>i. map (\<lambda>j.
               np_sum (map (\<lambda>m.
                  np_mul (np_mul (Some (lm ! l ! m)) (np_div (w ! m * 4 * pi) wsum))
                    (foldl (fill_batch (\<lambda>m. corr1_node E corr xa (length xarray) integ (mu ! m)))
                       (replicate (nat (q * lmax))
                          (replicate (length xarray) (replicate (length xarray) (Some 0))))
                       secs ! m ! i ! j))
                  [0..<nat (q * lmax)]))
               [0..<length xarray]) [0..<length xarray]) [0..<nat (lmax + 1)]"
    by (rule corr_to_clarray_Inr)
  let ?node = "\<lambda>m. corr1_node E corr xa (length xarray) integ (mu ! m)"
  let ?ca = "foldl (fill_batch ?node)
               (replicate (nat (q * lmax))
                  (replicate (length xarray) (replicate (length xarray) (Some 0)))) secs"
  have ca: "?ca ! m ! i ! j = ?ca ! m ! j ! i" if "m < nat (q * lmax)" for m
  proof -
    have "?ca ! m = ?node m" using secs that by (rule corr_array_nth)
    then show ?thesis using i j by (simp add: corr1_node_sym)
  qed
  let ?summand = "\<lambda>a b m. np_mul (np_mul (Some (lm ! l ! m)) (np_div (w ! m * 4 * pi) wsum))
                            (?ca ! m ! a ! b)"
  have entry: "clxx ! l ! a ! b = np_sum (map (?summand a b) [0..<nat (q * lmax)])"
    if "a < length xarray" "b < length xarray" for a b
    using l that unfolding clxx by simp
  have "map (?summand i j) [0..<nat (q * lmax)] = map (?summand j i) [0..<nat (q * lmax)]"
    by (rule map_cong) (simp_all add: ca)
  then show ?thesis by (simp only: entry[OF i j] entry[OF j i])
qed

text \<open>
  Claim C10. With fewer than 50 quadrature nodes, \<open>q * lmax < 50\<close>, the call raises an
  exception and returns no array: for \<open>q * lmax < 1\<close> the node routine refuses the order,
  otherwise the nodes are split into \<open>q * lmax // 50 = 0\<close> sections, which
  \<open>np.array_split\<close> refuses (unless the bin width has already raised \<open>IndexError\<close>).
\<close>

theorem corr_to_clarray_needs_50_nodes:
  assumes "q * lmax < 50"
  shows "\<exists>e. corr_to_clarray E corr lmax xarray xromb xwidth q = Inl e"
proof (cases "q * lmax < 1")
  case True
  then show ?thesis by (simp add: corr_to_clarray_def Let_def)
next
  case False
  then have "q * lmax div 50 = 0" using assms by simp
  then have "array_split [0..<nat (q * lmax)] (q * lmax div 50)
           = Inl (ValueError ''number sections must be larger than 0.'')"
    by (simp add: array_split_def)
  then show ?thesis using False
    by (auto simp: corr_to_clarray_def Let_def split: sum.splits prod.splits)
qed

theorem corr_to_clarray_needs_50_nodes_witness:
  "(2::int) * 24 < 50 \<and> (\<exists>e. corr_to_clarray unit_ext (\<lambda>r. r) 24 [1, 3] 3 None 2 = Inl e)"
  using corr_to_clarray_needs_50_nodes[of 2 24 unit_ext "\<lambda>r. r" "[1, 3]" 3 None] by simp

text \<open>
  The call does return for at least 50 nodes, a non-negative \<open>lmax\<close> and, when the bins
  are integrated over, a bin width that can be determined.
\<close>

lemma corr_to_clarray_returns:
  assumes "50 \<le> q * lmax" and "0 \<le> lmax"
    and "xromb \<le> 0 \<or> xwidth \<noteq> None \<or> 2 \<le> length xarray"
  shows "\<exists>clxx. corr_to_clarray E corr lmax xarray xromb xwidth q = Inr clxx"
proof -
  have "0 < q * lmax div 50" using assms(1) by (simp add: pos_imp_zdiv_pos_iff)
  then obtain secs where s: "array_split [0..<nat (q * lmax)] (q * lmax div 50) = Inr secs"
    by (auto simp: array_split_def Let_def)
  obtain lm where lm: "legendre_array E lmax (fst (roots_legendre E (nat (q * lmax)))) = Inr lm"
    using assms(2) by (auto simp: legendre_array_def)
  have hw: "half_width xarray xwidth \<noteq> Inl e" if "0 < xromb" for e
    using assms(3) that by (cases xwidth) (simp_all add: half_width_def Let_def)
  show ?thesis
  proof (cases "0 < xromb")
    case True
    then obtain h where "half_width xarray xwidth = Inr h"
      using hw by (cases "half_width xarray xwidth") auto
    then show ?thesis using True assms(1) s lm
      by (auto simp: corr_to_clarray_def Let_def split: prod.splits)
  next
    case False
    then show ?thesis using assms(1) s lm
      by (auto simp: corr_to_clarray_def Let_def split: prod.splits)
  qed
qed

theorem corr_to_clarray_symmetric_witness:
  "\<exists>clxx. corr_to_clarray unit_ext (\<lambda>r. r) 25 [1, 3] 3 None 2 = Inr clxx
         \<and> clxx ! 7 ! 0 ! 1 = clxx ! 7 ! 1 ! 0"
proof -
  obtain clxx where r: "corr_to_clarray unit_ext (\<lambda>r. r) 25 [1, 3] 3 None 2 = Inr clxx"
    using corr_to_clarray_returns[of 2 25 3 None "[1, 3]" unit_ext "\<lambda>r. r"] by auto
  have "clxx ! 7 ! 0 ! 1 = clxx ! 7 ! 1 ! 0"
    by (rule corr_to_clarray_symmetric[OF r]) simp_all
  then show ?thesis using r by blast
qed

section \<open>Properties of the Fingers-of-God kernel\<close>


lemma those_map_Some: "those (map (\<lambda>j. Some (f j)) xs) = Some (map f xs)"
  by (induction xs) simp_all

lemma np_sum_Some: "np_sum (map (\<lambda>j. Some (f j)) xs) = Some (\<Sum>j\<leftarrow>xs. f j)"
  by (simp add: np_sum_def those_map_Some)

lemma K_normalised_Some:
  assumes "\<forall>i<n. (\<Sum>j\<leftarrow>[0..<n]. k i j) \<noteq> 0"
  shows "K_normalised (map (\<lambda>i. map (\<lambda>j. Some (k i j)) [0..<n]) [0..<n])
       = map (\<lambda>i. map (\<lambda>j. Some (k i j / (\<Sum>j\<leftarrow>[0..<n]. k i j))) [0..<n]) [0..<n]"
  using assms by (simp add: K_normalised_def np_sum_Some np_div_def)

lemma K_ungrown_Some:
  assumes "\<forall>j<n. D ! j \<noteq> 0"
  shows "K_ungrown D (map (\<lambda>i. map (\<lambda>j. Some (k i j)) [0..<n]) [0..<n])
       = map (\<lambda>i. map (\<lambda>j. Some (k i j / D ! j)) [0..<n]) [0..<n]"
  using assms by (simp add: K_ungrown_def np_div_def)

lemma K_regrown_Some:
  "K_regrown D (map (\<lambda>i. map (\<lambda>j. Some (k i j)) [0..<n]) [0..<n])
       = map (\<lambda>i. map (\<lambda>j. Some (k i j * D ! i)) [0..<n]) [0..<n]"
  by (simp add: K_regrown_def)


lemma sinhc_pos:
  assumes "x \<noteq> 0"
  shows "\<exists>v>0. sinhc x = Some v"
proof -
  have "0 < sinh x / x"
  proof (cases "0 < x")
    case True
    then show ?thesis by simp
  next
    case False
    then have "x < 0" using assms by simp
    then have "sinh x < 0" by simp
    then show ?thesis using \<open>x < 0\<close> by (simp add: divide_neg_neg)
  qed
  then show ?thesis using assms by (simp add: sinhc_def np_div_def)
qed

lemma calculate_width_length:
  "calculate_width chi = Inr dchi \<Longrightarrow> length dchi = length chi \<and> 2 \<le> length chi"
  by (auto simp: calculate_width_def Let_def split: if_splits)

lemma K_filled_entry:
  assumes len: "length sP = length chi" "length dchi = length chi"
    and pos: "\<forall>s\<in>set sP. 0 < s" and w: "\<forall>w\<in>set dchi. w \<noteq> 0"
    and i: "i < length chi" and j: "j < length chi"
  shows "\<exists>v>0. K_filled (map (\<lambda>s. np_div (sqrt 2) s) sP) chi dchi ! i ! j = Some v"
proof -
  have sp: "0 < sP ! m" if "m < length chi" for m
    using that len pos by simp
  have a: "map (\<lambda>s. np_div (sqrt 2) s) sP ! m = Some (sqrt 2 / sP ! m)"
    if "m < length chi" for m
    using that len sp[OF that] by (simp add: np_div_def)
  have d: "dchi ! m \<noteq> 0" if "m < length chi" for m
    using that len w by simp
  show ?thesis
  proof (cases "i = j")
    case True
    have z: "0 < length chi" using i by (cases chi) simp_all
    let ?x = "sqrt 2 / sP ! 0 * dchi ! i / 4"
    have "?x \<noteq> 0" using sp[OF z] d[OF i] by simp
    then obtain v where v: "0 < v" "sinhc ?x = Some v" using sinhc_pos by blast
    have "K_diag (map (\<lambda>s. np_div (sqrt 2) s) sP) dchi i
        = Some (exp (- (sqrt 2 / sP ! 0) * dchi ! i / 4) * v)"
      using a[OF z] v by (simp add: K_diag_def)
    moreover have "0 < exp (- (sqrt 2 / sP ! 0) * dchi ! i / 4) * v" using v by simp
    ultimately show ?thesis using True i by (simp add: K_filled_def)
  next
    case False
    let ?x = "sqrt 2 / sP ! i * dchi ! j / 2"
    have "?x \<noteq> 0" using sp[OF i] d[OF j] by simp
    then obtain v where v: "0 < v" "sinhc ?x = Some v" using sinhc_pos by blast
    have "K_offdiag (map (\<lambda>s. np_div (sqrt 2) s) sP) chi dchi i j
        = Some (exp (- (sqrt 2 / sP ! i) * \<bar>chi ! i - chi ! j\<bar>) * v)"
      using a[OF i] v by (simp add: K_offdiag_def)
    moreover have "0 < exp (- (sqrt 2 / sP ! i) * \<bar>chi ! i - chi ! j\<bar>) * v" using v by simp
    ultimately show ?thesis using False i j by (simp add: K_filled_def)
  qed
qed

lemma K_filled_matrix:
  assumes len: "length sP = length chi" "length dchi = length chi"
    and pos: "\<forall>s\<in>set sP. 0 < s" and w: "\<forall>w\<in>set dchi. w \<noteq> 0"
  obtains k where
    "\<And>i j. i < length chi \<Longrightarrow> j < length chi \<Longrightarrow> 0 < k i j"
    "K_filled (map (\<lambda>s. np_div (sqrt 2) s) sP) chi dchi
       = map (\<lambda>i. map (\<lambda>j. Some (k i j)) [0..<length chi]) [0..<length chi]"
proof -
  let ?K = "K_filled (map (\<lambda>s. np_div (sqrt 2) s) sP) chi dchi"
  let ?k = "\<lambda>i j. the (?K ! i ! j)"
  have e: "?K ! i ! j = Some (?k i j) \<and> 0 < ?k i j" if "i < length chi" "j < length chi" for i j
    using K_filled_entry[OF len pos w that] by auto
  have "?K = map (\<lambda>i. map (\<lambda>j. Some (?k i j)) [0..<length chi]) [0..<length chi]"
  proof (rule nth_equalityI)
    show "length ?K = length (map (\<lambda>i. map (\<lambda>j. Some (?k i j)) [0..<length chi]) [0..<length chi])"
      by (simp add: K_filled_def)
  next
    fix i assume "i < length ?K"
    then have i: "i < length chi" by (simp add: K_filled_def)
    have "?K ! i = map (\<lambda>j. Some (?k i j)) [0..<length chi]"
    proof (rule nth_equalityI)
      show "length (?K ! i) = length (map (\<lambda>j. Some (?k i j)) [0..<length chi])"
        using i by (simp add: K_filled_def)
    next
      fix j assume "j < length (?K ! i)"
      then have j: "j < length chi" using i by (simp add: K_filled_def)
      show "?K ! i ! j = map (\<lambda>j. Some (?k i j)) [0..<length chi] ! j"
        using e[OF i j] j by simp
    qed
    then show "?K ! i = map (\<lambda>i. map (\<lambda>j. Some (?k i j)) [0..<length chi]) [0..<length chi] ! i"
      using i by simp
  qed
  then show ?thesis using that[of ?k] e by blast
qed


lemma exponential_FoG_kernel_explicit:
  assumes cw: "calculate_width chi = Inr dchi" and w: "\<forall>w\<in>set dchi. w \<noteq> 0"
    and sl: "length sigmaP = length chi" and sp: "\<forall>s\<in>set sigmaP. 0 < s"
    and dl: "length D = length chi" and dp: "\<forall>d\<in>set D. 0 < d"
  obtains k where
    "\<And>i j. i < length chi \<Longrightarrow> j < length chi \<Longrightarrow> 0 < k i j"
    "exponential_FoG_kernel chi (Array sigmaP) (Array D)
       = Inr (map (\<lambda>i. map (\<lambda>j. Some (k i j / (\<Sum>j\<leftarrow>[0..<length chi]. k i j) / D ! j * D ! i))
                           [0..<length chi]) [0..<length chi])"
proof -
  let ?n = "length chi"
  have n: "length dchi = ?n" "2 \<le> ?n" using calculate_width_length[OF cw] by simp_all
  obtain k where kpos: "\<And>i j. i < ?n \<Longrightarrow> j < ?n \<Longrightarrow> 0 < k i j"
    and K: "K_filled (map (\<lambda>s. np_div (sqrt 2) s) sigmaP) chi dchi
              = map (\<lambda>i. map (\<lambda>j. Some (k i j)) [0..<?n]) [0..<?n]"
    using K_filled_matrix[OF sl n(1) sp w] by blast
  have S: "(\<Sum>j\<leftarrow>[0..<?n]. k i j) \<noteq> 0" if "i < ?n" for i
  proof -
    have "0 < (\<Sum>j\<in>{0..<?n}. k i j)"
      using n(2) kpos[OF that] by (intro sum_pos) auto
    then show ?thesis by (simp add: interv_sum_list_conv_sum_set_nat)
  qed
  have S': "\<forall>i<?n. (\<Sum>j\<leftarrow>[0..<?n]. k i j) \<noteq> 0" using S by blast
  have Dne: "\<forall>j<?n. D ! j \<noteq> 0"
    using dl dp by (metis nth_mem less_irrefl)
  have st1: "K_normalised (map (\<lambda>i. map (\<lambda>j. Some (k i j)) [0..<?n]) [0..<?n])
       = map (\<lambda>i. map (\<lambda>j. Some (k i j / (\<Sum>j\<leftarrow>[0..<?n]. k i j))) [0..<?n]) [0..<?n]"
    by (rule K_normalised_Some[OF S'])
  have st2: "K_ungrown D (map (\<lambda>i. map (\<lambda>j. Some (k i j / (\<Sum>j\<leftarrow>[0..<?n]. k i j))) [0..<?n]) [0..<?n])
       = map (\<lambda>i. map (\<lambda>j. Some (k i j / (\<Sum>j\<leftarrow>[0..<?n]. k i j) / D ! j)) [0..<?n]) [0..<?n]"
    by (rule K_ungrown_Some[OF Dne])
  have st3: "K_regrown D (map (\<lambda>i. map (\<lambda>j. Some (k i j / (\<Sum>j\<leftarrow>[0..<?n]. k i j) / D ! j)) [0..<?n]) [0..<?n])
       = map (\<lambda>i. map (\<lambda>j. Some (k i j / (\<Sum>j\<leftarrow>[0..<?n]. k i j) / D ! j * D ! i)) [0..<?n]) [0..<?n]"
    by (rule K_regrown_Some)
  have bs: "broadcast ?n (map (\<lambda>s. np_div (sqrt 2) s) sigmaP) = Inr (map (\<lambda>s. np_div (sqrt 2) s) sigmaP)"
    using sl by (simp add: broadcast_def)
  have bd: "broadcast ?n D = Inr D" using dl by (simp add: broadcast_def)
  have "exponential_FoG_kernel chi (Array sigmaP) (Array D)
      = Inr (K_regrown D (K_ungrown D (K_normalised
               (map (\<lambda>i. map (\<lambda>j. Some (k i j)) [0..<?n]) [0..<?n]))))"
    by (simp add: exponential_FoG_kernel_def Let_def as_array_def cw bs bd K)
  also have "\<dots> = Inr (map (\<lambda>i. map (\<lambda>j. Some (k i j / (\<Sum>j\<leftarrow>[0..<?n]. k i j) / D ! j * D ! i))
                           [0..<?n]) [0..<?n])"
    by (simp only: st1 st2 st3)
  finally show ?thesis using that[of k] kpos by blast
qed

text \<open>
  Claim C1, as amended. Let the estimated bin widths of \<open>chi\<close> all be non-zero and let
  \<open>sigmaP\<close> and \<open>D\<close> be positive arrays of the length of \<open>chi\<close>. Then
  \<open>exponential_FoG_kernel\<close> returns a matrix \<open>K\<close> of finite entries with
  \<open>\<Sum>\<^sub>j K[i, j] * D[j] = D[i]\<close> for every row \<open>i\<close>: the row-normalised kernel acts on the
  field with the growth factor divided out, and the result is grown again. When \<open>D\<close> is
  the same in every bin, each row of \<open>K\<close> sums to 1.
\<close>

theorem exponential_FoG_kernel_rows:
  assumes cw: "calculate_width chi = Inr dchi" and w: "\<forall>w\<in>set dchi. w \<noteq> 0"
    and sl: "length sigmaP = length chi" and sp: "\<forall>s\<in>set sigmaP. 0 < s"
    and dl: "length D = length chi" and dp: "\<forall>d\<in>set D. 0 < d"
  shows "\<exists>K. exponential_FoG_kernel chi (Array sigmaP) (Array D) = Inr K
            \<and> length K = length chi
            \<and> (\<forall>i<length chi.
                  np_sum (map (\<lambda>j. np_mul (K ! i ! j) (Some (D ! j))) [0..<length chi]) = Some (D ! i))
            \<and> ((\<forall>j<length chi. D ! j = D ! 0) \<longrightarrow> (\<forall>i<length chi. np_sum (K ! i) = Some 1))"
proof -
  let ?n = "length chi"
  obtain k where kpos: "\<And>i j. i < ?n \<Longrightarrow> j < ?n \<Longrightarrow> 0 < k i j"
    and ker: "exponential_FoG_kernel chi (Array sigmaP) (Array D)
       = Inr (map (\<lambda>i. map (\<lambda>j. Some (k i j / (\<Sum>j\<leftarrow>[0..<?n]. k i j) / D ! j * D ! i))
                           [0..<?n]) [0..<?n])"
    using exponential_FoG_kernel_explicit[OF assms] by blast
  let ?S = "\<lambda>i. (\<Sum>j\<in>{0..<?n}. k i j)"
  let ?K = "map (\<lambda>i. map (\<lambda>j. Some (k i j / (\<Sum>j\<leftarrow>[0..<?n]. k i j) / D ! j * D ! i))
                           [0..<?n]) [0..<?n]"
  have n: "2 \<le> ?n" using calculate_width_length[OF cw] by simp
  have S: "0 < ?S i" if "i < ?n" for i
    using n kpos[OF that] by (intro sum_pos) auto
  have Dne: "D ! j \<noteq> 0" if "j < ?n" for j
    using dl dp that by (metis nth_mem less_irrefl)
  have weighted: "np_sum (map (\<lambda>j. np_mul (?K ! i ! j) (Some (D ! j))) [0..<?n]) = Some (D ! i)"
    if i: "i < ?n" for i
  proof -
    have "map (\<lambda>j. np_mul (?K ! i ! j) (Some (D ! j))) [0..<?n]
        = map (\<lambda>j. Some (k i j * (D ! i / ?S i))) [0..<?n]"
      using i Dne by (intro map_cong) (simp_all add: np_mul_def interv_sum_list_conv_sum_set_nat)
    then have "np_sum (map (\<lambda>j. np_mul (?K ! i ! j) (Some (D ! j))) [0..<?n])
        = Some (\<Sum>j\<leftarrow>[0..<?n]. k i j * (D ! i / ?S i))"
      by (simp only: np_sum_Some)
    also have "(\<Sum>j\<leftarrow>[0..<?n]. k i j * (D ! i / ?S i)) = ?S i * (D ! i / ?S i)"
      by (simp only: interv_sum_list_conv_sum_set_nat set_upt sum_distrib_right)
    also have "\<dots> = D ! i" using S[OF i] by simp
    finally show ?thesis .
  qed
  have rows: "np_sum (?K ! i) = Some 1" if i: "i < ?n" and c: "\<forall>j<?n. D ! j = D ! 0" for i
  proof -
    have Di: "D ! i = D ! 0" using c i by simp
    have "?K ! i = map (\<lambda>j. Some (k i j / ?S i)) [0..<?n]"
      using i c Di Dne by (simp add: interv_sum_list_conv_sum_set_nat)
    then have "np_sum (?K ! i) = Some (\<Sum>j\<leftarrow>[0..<?n]. k i j / ?S i)"
      by (simp only: np_sum_Some)
    also have "(\<Sum>j\<leftarrow>[0..<?n]. k i j / ?S i) = ?S i / ?S i"
      by (simp only: interv_sum_list_conv_sum_set_nat set_upt sum_divide_distrib)
    also have "\<dots> = 1" using S[OF i] by simp
    finally show ?thesis .
  qed
  show ?thesis unfolding ker using weighted rows by (intro exI[of _ ?K]) simp
qed


lemma calculate_width_012: "calculate_width [0, 1, 2] = Inr [1, 1, 1]"
  by (simp add: calculate_width_def Let_def upt_conv_Cons)

theorem exponential_FoG_kernel_rows_witness:
  "calculate_width [0, 1, 2] = Inr [1, 1, 1] \<and>
   (\<exists>K. exponential_FoG_kernel [0, 1, 2] (Array [1, 1, 1]) (Array [3, 3, 3]) = Inr K
        \<and> np_sum (map (\<lambda>j. np_mul (K ! 1 ! j) (Some ([3, 3, 3] ! j))) [0..<3]) = Some 3
        \<and> np_sum (K ! 1) = Some 1)"
proof -
  let ?n = "length [0, 1, 2 :: real]"
  let ?D = "[3, 3, 3 :: real]"
  have n: "?n = 3" by simp
  have "\<exists>K. exponential_FoG_kernel [0, 1, 2] (Array [1, 1, 1]) (Array ?D) = Inr K
            \<and> length K = ?n
            \<and> (\<forall>i<?n. np_sum (map (\<lambda>j. np_mul (K ! i ! j) (Some (?D ! j))) [0..<?n]) = Some (?D ! i))
            \<and> ((\<forall>j<?n. ?D ! j = ?D ! 0) \<longrightarrow> (\<forall>i<?n. np_sum (K ! i) = Some 1))"
    by (rule exponential_FoG_kernel_rows[OF calculate_width_012]) simp_all
  then obtain K where K: "exponential_FoG_kernel [0, 1, 2] (Array [1, 1, 1]) (Array ?D) = Inr K"
    and w: "\<forall>i<?n. np_sum (map (\<lambda>j. np_mul (K ! i ! j) (Some (?D ! j))) [0..<?n]) = Some (?D ! i)"
    and r: "(\<forall>j<?n. ?D ! j = ?D ! 0) \<longrightarrow> (\<forall>i<?n. np_sum (K ! i) = Some 1)"
    by blast
  have c: "\<forall>j<?n. ?D ! j = ?D ! 0"
    by (auto simp: less_Suc_eq)
  have one: "(1::nat) < ?n" by simp
  have "np_sum (K ! 1) = Some 1" using r c one by blast
  moreover have "np_sum (map (\<lambda>j. np_mul (K ! 1 ! j) (Some (?D ! j))) [0..<?n]) = Some (?D ! 1)"
    using w one by blast
  then have "np_sum (map (\<lambda>j. np_mul (K ! 1 ! j) (Some (?D ! j))) [0..<3]) = Some 3"
    unfolding n by simp
  ultimately show ?thesis using K calculate_width_012 by blast
qed

text \<open>
  Claim C1 as stated fails when the growth factor varies: for \<open>chi = [0, 1, 2]\<close>,
  \<open>sigmaP = [1, 1, 1]\<close> and \<open>D = [1, 2, 2]\<close> the first row of the kernel does not sum to 1.
\<close>

theorem exponential_FoG_kernel_row_sum_counterexample:
  "case exponential_FoG_kernel [0, 1, 2] (Array [1, 1, 1]) (Array [1, 2, 2]) of
     Inl e \<Rightarrow> False
   | Inr K \<Rightarrow> np_sum (K ! 0) \<noteq> Some 1"
proof -
  obtain k :: "nat \<Rightarrow> nat \<Rightarrow> real"
    where kpos: "\<And>i j. i < length [0, 1, 2 :: real] \<Longrightarrow> j < length [0, 1, 2 :: real] \<Longrightarrow> 0 < k i j"
    and ker: "exponential_FoG_kernel [0, 1, 2] (Array [1, 1, 1]) (Array [1, 2, 2])
       = Inr (map (\<lambda>i. map (\<lambda>j. Some (k i j / (\<Sum>j\<leftarrow>[0..<length [0, 1, 2 :: real]]. k i j)
                                         / [1, 2, 2] ! j * [1, 2, 2] ! i))
                           [0..<length [0, 1, 2 :: real]]) [0..<length [0, 1, 2 :: real]])"
    using exponential_FoG_kernel_explicit[OF calculate_width_012, of "[1, 1, 1]" "[1, 2, 2]"]
    by auto
  define a b c where "a = k 0 0" and "b = k 0 (Suc 0)" and "c = k 0 (Suc (Suc 0))"
  have p: "0 < a" "0 < b" "0 < c" using kpos by (simp_all add: a_def b_def c_def)
  let ?S = "a + b + c"
  have S: "0 < ?S" using p by simp
  have ne: "a / ?S + b / ?S / 2 + c / ?S / 2 \<noteq> 1"
  proof
    assume "a / ?S + b / ?S / 2 + c / ?S / 2 = 1"
    moreover have "a / ?S + b / ?S / 2 + c / ?S / 2 = (a + b / 2 + c / 2) / ?S"
      by (simp add: add_divide_distrib mult.commute)
    ultimately have "(a + b / 2 + c / 2) / ?S = 1" by simp
    then have "a + b / 2 + c / 2 = ?S" using S by (simp only: divide_eq_1_iff)
    then show False using p by simp
  qed
  show ?thesis
    unfolding ker using ne
    by (simp add: upt_conv_Cons np_sum_def a_def b_def c_def add.assoc)
qed

text \<open>
  With exactly two radial bins the second estimated width is zero, \<open>sinhc\<close> is evaluated
  at zero, and every row sum is \<open>nan\<close>.
\<close>

lemma exponential_FoG_kernel_two_bins:
  "case exponential_FoG_kernel [0, 1] (Array [1, 1]) (Array [1, 1]) of
     Inl e \<Rightarrow> False
   | Inr K \<Rightarrow> np_sum (K ! 0) = None \<and> np_sum (K ! 1) = None"
  by (simp add: exponential_FoG_kernel_def Let_def as_array_def calculate_width_def broadcast_def
      K_normalised_def K_filled_def K_ungrown_def K_regrown_def K_diag_def K_offdiag_def
      sinhc_def np_div_def np_sum_def upt_conv_Cons)

section \<open>Properties of the lognormal transform\<close>


lemma map_nth_upt: "map (\<lambda>j. f (xs ! j)) [0..<length xs] = map f xs"
  by (rule nth_equalityI) simp_all

lemma those_map_Some_list: "those (map Some xs) = Some xs"
  by (induction xs) simp_all

lemma np_mean_Some:
  "xs \<noteq> [] \<Longrightarrow> np_mean (map Some xs) = Some (sum_list xs / real (length xs))"
  by (simp add: np_mean_def those_map_Some_list np_div_def)

lemma np_mean_map_Some:
  "xs \<noteq> [] \<Longrightarrow> np_mean (map (\<lambda>x. Some (f x)) xs) = Some ((\<Sum>x\<leftarrow>xs. f x) / real (length xs))"
  using np_mean_Some[of "map f xs"] by (simp add: comp_def)

lemma np_var_Some:
  assumes "xs \<noteq> []"
  shows "np_var (map Some xs)
       = Some ((\<Sum>x\<leftarrow>xs. \<bar>x - sum_list xs / real (length xs)\<bar>\<^sup>2) / real (length xs))"
  using assms by (simp add: np_var_def np_mean_Some comp_def np_mean_map_Some)

lemma np_mean_shift:
  assumes "xs \<noteq> []"
  shows "np_mean (map (map_option (\<lambda>y. 1 + y)) (map (\<lambda>x. Some (exp (x - v / 2) - 1)) xs))
       = Some (exp (- v / 2) * ((\<Sum>x\<leftarrow>xs. exp x) / real (length xs)))"
proof -
  have pt: "1 + (exp (x - v / 2) - 1) = exp x * exp (- v / 2)" for x :: real
    by (simp add: mult_exp_exp)
  have eq: "map (map_option (\<lambda>y. 1 + y)) (map (\<lambda>x. Some (exp (x - v / 2) - 1)) xs)
      = map (\<lambda>x. Some (exp x * exp (- v / 2))) xs"
    unfolding map_map comp_def option.map pt ..
  have "np_mean (map (map_option (\<lambda>y. 1 + y)) (map (\<lambda>x. Some (exp (x - v / 2) - 1)) xs))
      = np_mean (map (\<lambda>x. Some (exp x * exp (- v / 2))) xs)"
    by (simp only: eq)
  also have "\<dots> = Some ((\<Sum>x\<leftarrow>xs. exp x * exp (- v / 2)) / real (length xs))"
    by (rule np_mean_map_Some[OF assms])
  also have "(\<Sum>x\<leftarrow>xs. exp x * exp (- v / 2)) = (\<Sum>x\<leftarrow>xs. exp x) * exp (- v / 2)"
    by (simp only: sum_list_mult_const)
  finally show ?thesis by simp
qed

lemma lognormal_transform_Inr:
  assumes "lognormal_transform field out0 axis = Inr out"
  shows "out = map (\<lambda>i. map (\<lambda>j. do { x \<leftarrow> field ! i ! j;
                                       var \<leftarrow> np_var (axis_line axis field i j);
                                       Some (exp (x - var / 2) - 1) })
                          [0..<length (field ! i)]) [0..<length field]"
  using assms by (simp add: lognormal_transform_def split: if_splits)

lemma axis_line_finite:
  assumes rect: "\<forall>row\<in>set F. length row = n" and i: "i < length F" and j: "j < n"
  shows "axis_line axis (finite_field F) i j = map Some (axis_line axis F i j)"
    and "axis_line axis F i j \<noteq> []"
proof -
  have rowj: "map Some row ! j = Some (row ! j)" if "row \<in> set F" for row
    using rect that j by simp
  show "axis_line axis (finite_field F) i j = map Some (axis_line axis F i j)"
    using i rowj by (auto simp: axis_line_def finite_field_def map_concat split: option.splits)
  have Fi: "F ! i \<in> set F" using i by simp
  then have ne: "F ! i \<noteq> []" using rect j by auto
  have "concat F \<noteq> []" using Fi ne by auto
  moreover have "map (\<lambda>row. row ! j) F \<noteq> []" using i by auto
  ultimately show "axis_line axis F i j \<noteq> []"
    using ne by (auto simp: axis_line_def split: option.splits)
qed


lemma finite_field_nth:
  "i < length F \<Longrightarrow> j < length (F ! i) \<Longrightarrow> finite_field F ! i ! j = Some (F ! i ! j)"
  by (simp add: finite_field_def)

lemma lognormal_transform_line:
  assumes ret: "lognormal_transform (finite_field F) out0 axis = Inr out"
    and rect: "\<forall>row\<in>set F. length row = n"
    and i: "i < length F" and j: "j < n"
    and v: "np_var (axis_line axis (finite_field F) i j) = Some v"
  shows "axis_line axis out i j = map (\<lambda>x. Some (exp (x - v / 2) - 1)) (axis_line axis F i j)"
proof -
  note out = lognormal_transform_Inr[OF ret]
  have len: "length (F ! k) = n" if "k < length F" for k
    using rect that by simp
  have lenf: "length (finite_field F ! k) = n" if "k < length F" for k
    using len that by (simp add: finite_field_def)
  have lf: "length (finite_field F) = length F" by (simp add: finite_field_def)
  let ?g = "\<lambda>x. Some (exp (x - v / 2) - 1)"
  show ?thesis
  proof (cases axis)
    case None
    have vv: "np_var (concat (finite_field F)) = Some v" using v None by (simp add: axis_line_def)
    have "out = map (\<lambda>i. map (\<lambda>j. ?g (F ! i ! j)) [0..<length (F ! i)]) [0..<length F]"
      unfolding out lf using None vv
      by (intro map_cong refl) (simp_all add: axis_line_def lenf len finite_field_nth)
    also have "\<dots> = map (\<lambda>i. map ?g (F ! i)) [0..<length F]"
      by (simp add: map_nth_upt[of ?g])
    also have "\<dots> = map (map ?g) F"
      by (rule map_nth_upt)
    finally have "out = map (map ?g) F" .
    then show ?thesis using None by (simp add: axis_line_def map_concat)
  next
    case (Some a)
    show ?thesis
    proof (cases "a = 0 \<or> a = - 2")
      case True
      have vv: "np_var (map (\<lambda>row. row ! j) (finite_field F)) = Some v"
        using v Some True by (simp add: axis_line_def)
      have "map (\<lambda>row. row ! j) out = map (\<lambda>i. out ! i ! j) [0..<length out]"
        by (simp add: map_nth_upt[of "\<lambda>row. row ! j" out])
      also have "\<dots> = map (\<lambda>i. ?g (F ! i ! j)) [0..<length F]"
        unfolding out using Some True j vv
        by (simp add: lf axis_line_def lenf len finite_field_nth)
      also have "\<dots> = map ?g (map (\<lambda>row. row ! j) F)"
        by (simp add: map_nth_upt[of "\<lambda>row. ?g (row ! j)" F])
      finally show ?thesis using Some True by (simp add: axis_line_def)
    next
      case False
      have vv: "np_var (finite_field F ! i) = Some v"
        using v Some False by (simp add: axis_line_def)
      have "out ! i = map (\<lambda>j. ?g (F ! i ! j)) [0..<length (F ! i)]"
        unfolding out using Some False i vv
        by (simp add: lf axis_line_def lenf len finite_field_nth)
      also have "\<dots> = map ?g (F ! i)"
        by (rule map_nth_upt)
      finally show ?thesis using Some False by (simp add: axis_line_def)
    qed
  qed
qed

text \<open>
  Claim C2, as amended. For every finite field (every row of the same length), each
  axis the transform accepts and each entry \<open>(i, j)\<close>: along the line of the transform
  axis through the entry, with \<open>v\<close> the variance of the field and \<open>m\<close> the mean of
  \<open>exp(field)\<close> along that line, the output is \<open>exp(field - v / 2) - 1\<close> and the mean of
  \<open>1 + out\<close> is \<open>exp(- v / 2) * m\<close>. That mean is 1 exactly when \<open>m = exp(v / 2)\<close>, which a
  Gaussian field has in expectation; nothing makes the mean of \<open>exp(out)\<close> equal 1.
\<close>

theorem lognormal_transform_mean:
  assumes ret: "lognormal_transform (finite_field F) out0 axis = Inr out"
    and rect: "\<forall>row\<in>set F. length row = n"
    and i: "i < length F" and j: "j < n"
  shows "\<exists>v m. np_var (axis_line axis (finite_field F) i j) = Some v
             \<and> np_mean (map (map_option exp) (axis_line axis (finite_field F) i j)) = Some m
             \<and> axis_line axis out i j = map (\<lambda>x. Some (exp (x - v / 2) - 1)) (axis_line axis F i j)
             \<and> np_mean (map (map_option (\<lambda>y. 1 + y)) (axis_line axis out i j)) = Some (exp (- v / 2) * m)"
proof -
  let ?L = "axis_line axis F i j"
  have fl: "axis_line axis (finite_field F) i j = map Some ?L" and ne: "?L \<noteq> []"
    using axis_line_finite[OF rect i j] by simp_all
  obtain v where v: "np_var (axis_line axis (finite_field F) i j) = Some v"
    unfolding fl using np_var_Some[OF ne] by simp
  have m: "np_mean (map (map_option exp) (axis_line axis (finite_field F) i j))
         = Some ((\<Sum>x\<leftarrow>?L. exp x) / real (length ?L))"
    unfolding fl using np_mean_map_Some[OF ne, of exp] by (simp add: comp_def)
  have line: "axis_line axis out i j = map (\<lambda>x. Some (exp (x - v / 2) - 1)) ?L"
    using ret rect i j v by (rule lognormal_transform_line)
  have "np_mean (map (map_option (\<lambda>y. 1 + y)) (axis_line axis out i j))
      = Some (exp (- v / 2) * ((\<Sum>x\<leftarrow>?L. exp x) / real (length ?L)))"
    unfolding line by (rule np_mean_shift[OF ne])
  then show ?thesis using v m line by blast
qed


lemma np_var_0_2: "np_var [Some 0, Some 2] = Some 1"
  by (simp add: np_var_def np_mean_def np_div_def)

lemma lognormal_transform_0_2:
  "lognormal_transform (finite_field [[0, 2]]) None (Some 1)
     = Inr [[Some (exp (- 1 / 2) - 1), Some (exp (3 / 2) - 1)]]"
  by (simp add: lognormal_transform_def finite_field_def axis_line_def np_var_0_2 upt_conv_Cons)

theorem lognormal_transform_mean_witness:
  "lognormal_transform (finite_field [[0, 2]]) None (Some 1)
     = Inr [[Some (exp (- 1 / 2) - 1), Some (exp (3 / 2) - 1)]]
   \<and> np_mean (map (map_option (\<lambda>y. 1 + y)) [Some (exp (- 1 / 2) - 1), Some (exp (3 / 2) - 1)])
       = Some (exp (- 1 / 2) * ((exp 0 + exp 2) / 2))"
proof -
  have h: "\<forall>row\<in>set [[0, 2 :: real]]. length row = 2" by simp
  have i: "0 < length [[0, 2 :: real]]" by simp
  have j: "(0::nat) < 2" by simp
  obtain v m where
    v: "np_var (axis_line (Some 1) (finite_field [[0, 2]]) 0 0) = Some v" and
    m: "np_mean (map (map_option exp) (axis_line (Some 1) (finite_field [[0, 2]]) 0 0)) = Some m" and
    r: "np_mean (map (map_option (\<lambda>y. 1 + y))
                  (axis_line (Some 1) [[Some (exp (- 1 / 2) - 1), Some (exp (3 / 2) - 1)]] 0 0))
          = Some (exp (- v / 2) * m)"
    using lognormal_transform_mean[OF lognormal_transform_0_2 h i j] by blast
  have "v = 1" using v by (simp add: axis_line_def finite_field_def np_var_0_2)
  moreover have "m = (exp 0 + exp 2) / 2"
    using m by (simp add: axis_line_def finite_field_def np_mean_def np_div_def)
  ultimately show ?thesis
    using r lognormal_transform_0_2 by (simp add: axis_line_def)
qed

text \<open>
  Claim C2 as stated fails: for the one-row field \<open>[[0, 2]]\<close>, transformed along its row
  (variance 1), the mean of \<open>exp(out)\<close> exceeds 1.
\<close>

theorem lognormal_transform_exp_mean_counterexample:
  "case lognormal_transform (finite_field [[0, 2]]) None (Some 1) of
     Inl e \<Rightarrow> False
   | Inr out \<Rightarrow> np_mean (map (map_option exp) (axis_line (Some 1) out 0 0)) \<noteq> Some 1"
proof -
  have a: "(5::real) / 2 \<le> exp (3 / 2)"
    using exp_ge_add_one_self[of "3 / 2 :: real"] by simp
  then have "exp (3 / 2 :: real) \<le> exp (exp (3 / 2) - 1)" by simp
  then have b: "(5::real) / 2 \<le> exp (exp (3 / 2) - 1)" using a by linarith
  have c: "(0::real) < exp (exp (- 1 / 2) - 1)" by simp
  have "2 < exp (exp (- 1 / 2) - 1) + exp (exp (3 / 2 :: real) - 1)"
    using b c by linarith
  then have "np_mean (map (map_option exp) [Some (exp (- 1 / 2) - 1), Some (exp (3 / 2 :: real) - 1)])
               \<noteq> Some 1"
    by (simp add: np_mean_def np_div_def)
  then show ?thesis
    by (simp add: lognormal_transform_0_2 axis_line_def)
qed

section \<open>Properties of the shape validation\<close>


lemma npix2nside_5: "npix2nside 5 = Inl (ValueError ''Wrong pixel number (it is not 12*nside**2)'')"
  by (simp add: npix2nside_def upt_conv_Cons)

lemma npix2nside_12: "npix2nside 12 = Inr 1"
  by (simp add: npix2nside_def upt_conv_Cons)

lemma npix2nside_cases:
  "(\<exists>nside. npix2nside npix = Inr nside \<and> 12 * nside * nside = npix)
   \<or> (npix2nside npix = Inl (ValueError ''Wrong pixel number (it is not 12*nside**2)'')
        \<and> (\<forall>k. 12 * k * k \<noteq> npix))"
proof (cases "find (\<lambda>k. 12 * k * k = npix) [0..<npix + 1]")
  case None
  then have "\<not> (\<exists>x. x \<in> set [0..<npix + 1] \<and> 12 * x * x = npix)"
    unfolding find_None_iff .
  then have no: "\<And>x. x \<in> set [0..<npix + 1] \<Longrightarrow> 12 * x * x \<noteq> npix"
    by blast
  have n: "12 * k * k \<noteq> npix" if "k < npix + 1" for k
  proof (rule no)
    show "k \<in> set [0..<npix + 1]" using that by (simp del: upt_Suc)
  qed
  have "12 * k * k \<noteq> npix" for k
  proof (cases "k < npix + 1")
    case True
    then show ?thesis by (rule n)
  next
    case False
    have "k \<le> k * k" by (rule le_square)
    also have "k * k \<le> 12 * (k * k)" by simp
    finally have "k \<le> 12 * k * k" by (simp add: mult.assoc)
    then show ?thesis using False by linarith
  qed
  then show ?thesis using None by (simp add: npix2nside_def)
next
  case (Some k)
  then have "12 * k * k = npix" by (auto simp: find_Some_iff)
  then show ?thesis using Some by (auto simp: npix2nside_def)
qed


lemma assert_shape_None_iff: "assert_shape arr shp name = None \<longleftrightarrow> shape arr = shp"
  by (auto simp: assert_shape_def)

lemma assert_shape_Some: "assert_shape arr shp name = Some e \<Longrightarrow> shape_error name e \<and> shape arr \<noteq> shp"
  by (auto simp: assert_shape_def shape_error_def split: if_splits)

lemma validate_shapes_None_iff:
  "validate_shapes psi delta_m chi out nchi npix = None \<longleftrightarrow>
     shape psi = [3, nchi, npix] \<and> shape delta_m = [nchi, npix]
   \<and> shape chi = [nchi] \<and> shape out = [nchi, npix]"
  by (auto simp: validate_shapes_def assert_shape_None_iff split: option.splits
      dest: assert_shape_Some)

lemma validate_shapes_Some:
  assumes "validate_shapes psi delta_m chi out nchi npix = Some e"
  shows "(shape_error ''psi'' e \<and> shape psi \<noteq> [3, nchi, npix])
       \<or> (shape_error ''delta_m'' e \<and> shape delta_m \<noteq> [nchi, npix])
       \<or> (shape_error ''chi'' e \<and> shape chi \<noteq> [nchi])
       \<or> (shape_error ''out'' e \<and> shape out \<noteq> [nchi, npix])"
  using assms
  by (auto simp: validate_shapes_def split: option.splits dest: assert_shape_Some)

lemma not_shape_error_other [simp]:
  "\<not> shape_error name (ValueError ''Wrong pixel number (it is not 12*nside**2)'')"
  "\<not> shape_error name IndexError"
  by (auto simp: shape_error_def)

lemma npix2nside_Inl:
  "npix2nside npix = Inl e \<Longrightarrow> e = ValueError ''Wrong pixel number (it is not 12*nside**2)''"
  by (auto simp: npix2nside_def split: option.splits)

text \<open>
  \<open>za_density_grid\<close> keeps the shape contract: on a two-dimensional \<open>delta_bias\<close> it
  raises a shape error, naming an array whose shape is wrong, exactly when some shape is
  wrong, and an exception leaves \<open>out\<close> as it was.
\<close>

lemma za_density_grid_shape_contract:
  assumes "shape delta_bias = [nchi, npix]"
  shows "(\<exists>e name. fst (za_density_grid P psi delta_bias delta_m chi out) = Some e \<and> shape_error name e)
           \<longleftrightarrow> \<not> (shape psi = [3, nchi, npix] \<and> shape delta_m = [nchi, npix]
                   \<and> shape chi = [nchi] \<and> shape out = [nchi, npix])"
    and "fst (za_density_grid P psi delta_bias delta_m chi out) \<noteq> None
           \<Longrightarrow> snd (za_density_grid P psi delta_bias delta_m chi out) = out"
proof -
  show "(\<exists>e name. fst (za_density_grid P psi delta_bias delta_m chi out) = Some e \<and> shape_error name e)
           \<longleftrightarrow> \<not> (shape psi = [3, nchi, npix] \<and> shape delta_m = [nchi, npix]
                   \<and> shape chi = [nchi] \<and> shape out = [nchi, npix])"
  proof (cases "validate_shapes psi delta_m chi out nchi npix")
    case None
    then have ok: "shape psi = [3, nchi, npix] \<and> shape delta_m = [nchi, npix]
                 \<and> shape chi = [nchi] \<and> shape out = [nchi, npix]"
      by (simp add: validate_shapes_None_iff)
    have "\<not> (\<exists>e name. fst (za_density_grid P psi delta_bias delta_m chi out) = Some e \<and> shape_error name e)"
      using assms None by (auto simp: za_density_grid_def split: sum.splits dest: npix2nside_Inl)
    then show ?thesis using ok by blast
  next
    case (Some e)
    then have bad: "\<not> (shape psi = [3, nchi, npix] \<and> shape delta_m = [nchi, npix]
                 \<and> shape chi = [nchi] \<and> shape out = [nchi, npix])"
      using validate_shapes_None_iff[of psi delta_m chi out nchi npix] by simp
    have "fst (za_density_grid P psi delta_bias delta_m chi out) = Some e"
      using assms Some by (simp add: za_density_grid_def)
    moreover have "\<exists>name. shape_error name e" using validate_shapes_Some[OF Some] by blast
    ultimately show ?thesis using bad by blast
  qed
  show "fst (za_density_grid P psi delta_bias delta_m chi out) \<noteq> None
           \<Longrightarrow> snd (za_density_grid P psi delta_bias delta_m chi out) = out"
    by (auto simp: za_density_grid_def split: list.splits option.splits sum.splits if_splits)
qed

text \<open>
  \<open>za_density_sph\<close> keeps it for a pixel count that healpy accepts.
\<close>

lemma za_density_sph_shape_contract:
  assumes "shape delta_bias = [nchi, npix]" and "npix2nside npix = Inr nside"
  shows "(\<exists>e name. fst (za_density_sph P psi delta_bias delta_m chi out) = Some e \<and> shape_error name e)
           \<longleftrightarrow> \<not> (shape psi = [3, nchi, npix] \<and> shape delta_m = [nchi, npix]
                   \<and> shape chi = [nchi] \<and> shape out = [nchi, npix])"
    and "fst (za_density_sph P psi delta_bias delta_m chi out) \<noteq> None
           \<Longrightarrow> snd (za_density_sph P psi delta_bias delta_m chi out) = out"
proof -
  show "(\<exists>e name. fst (za_density_sph P psi delta_bias delta_m chi out) = Some e \<and> shape_error name e)
           \<longleftrightarrow> \<not> (shape psi = [3, nchi, npix] \<and> shape delta_m = [nchi, npix]
                   \<and> shape chi = [nchi] \<and> shape out = [nchi, npix])"
  proof (cases "validate_shapes psi delta_m chi out nchi npix")
    case None
    then have ok: "shape psi = [3, nchi, npix] \<and> shape delta_m = [nchi, npix]
                 \<and> shape chi = [nchi] \<and> shape out = [nchi, npix]"
      by (simp add: validate_shapes_None_iff)
    have "fst (za_density_sph P psi delta_bias delta_m chi out) = None"
      using assms None by (simp add: za_density_sph_def)
    then show ?thesis using ok by simp
  next
    case (Some e)
    then have bad: "\<not> (shape psi = [3, nchi, npix] \<and> shape delta_m = [nchi, npix]
                 \<and> shape chi = [nchi] \<and> shape out = [nchi, npix])"
      using validate_shapes_None_iff[of psi delta_m chi out nchi npix] by simp
    have "fst (za_density_sph P psi delta_bias delta_m chi out) = Some e"
      using assms Some by (simp add: za_density_sph_def)
    moreover have "\<exists>name. shape_error name e" using validate_shapes_Some[OF Some] by blast
    ultimately show ?thesis using bad by blast
  qed
  show "fst (za_density_sph P psi delta_bias delta_m chi out) \<noteq> None
           \<Longrightarrow> snd (za_density_sph P psi delta_bias delta_m chi out) = out"
    by (auto simp: za_density_sph_def split: list.splits option.splits sum.splits)
qed

text \<open>
  Claim C8 at the failing input: \<open>delta_bias\<close>, \<open>delta_m\<close> and \<open>out\<close> of shape \<open>(2, 5)\<close>,
  \<open>chi\<close> of shape \<open>(2,)\<close> and \<open>psi\<close> of shape \<open>(3, 2, 4)\<close>. The shape of \<open>psi\<close> is wrong
  and \<open>za_density_grid\<close> raises the shape error that names \<open>psi\<close>; \<open>za_density_sph\<close>
  raises healpy's error about the pixel count instead, which names no array. Neither
  changes \<open>out\<close>.
\<close>

theorem za_density_sph_shape_error_preempted:
  "za_density_sph P (zeros [3, 2, 4]) (zeros [2, 5]) (zeros [2, 5]) (zeros [2]) (zeros [2, 5])
     = (Some (ValueError ''Wrong pixel number (it is not 12*nside**2)''), zeros [2, 5])
   \<and> \<not> shape_error ''psi'' (ValueError ''Wrong pixel number (it is not 12*nside**2)'')
   \<and> za_density_grid P (zeros [3, 2, 4]) (zeros [2, 5]) (zeros [2, 5]) (zeros [2]) (zeros [2, 5])
     = (Some (ValueError ''Array psi has the wrong shape''), zeros [2, 5])
   \<and> shape_error ''psi'' (ValueError ''Array psi has the wrong shape'')"
  by (simp add: za_density_sph_def za_density_grid_def npix2nside_5 validate_shapes_def
      assert_shape_def zeros_def shape_error_def)

section \<open>Properties of the bias stage\<close>


lemma biased_delta_finite:
  assumes fin: "lss_delta f = finite_field F"
    and b1: "bias_1 cfg = Some b1" and b2: "bias_2 cfg = Some b2"
    and g0: "growth_factor (lss_cosmology f) 0 \<noteq> 0"
  shows "biased_delta cfg f z = finite_field (bias_formula (growth_factor (lss_cosmology f)) b1 b2 z F)"
proof -
  let ?g = "growth_factor (lss_cosmology f)"
  have len: "length (lss_delta f) = length F" by (simp add: fin finite_field_def)
  have row: "lss_delta f ! i = map Some (F ! i)" if "i < length F" for i
    using that by (simp add: fin finite_field_def)
  have sq: "map (\<lambda>x. np_mul x x) (map Some xs) = map (\<lambda>x. Some (x * x)) xs" for xs :: "real list"
    by (simp add: np_mul_def)
  have rowi: "(let D = np_div (?g (z ! i)) (?g 0);
                  d2m = np_mean (map (\<lambda>x. np_mul x x) (lss_delta f ! i))
              in map (\<lambda>x.
                   let first = (case bias_1 cfg of
                                  None \<Rightarrow> Some 0
                                | Some b1 \<Rightarrow> np_add (Some 0) (np_mul (np_mul D (Some (b1 (z ! i)))) x))
                   in (case bias_2 cfg of
                         None \<Rightarrow> first
                       | Some b2 \<Rightarrow>
                           np_add first
                             (np_mul (np_mul (np_mul D D) (Some (b2 (z ! i)))) (np_sub (np_mul x x) d2m))))
                 (lss_delta f ! i))
           = map Some (map (\<lambda>x. ?g (z ! i) / ?g 0 * b1 (z ! i) * x
                       + (?g (z ! i) / ?g 0)\<^sup>2 * b2 (z ! i)
                         * (x\<^sup>2 - (\<Sum>y\<leftarrow>F ! i. y\<^sup>2) / real (length (F ! i)))) (F ! i))"
    if i: "i < length F" for i
  proof (cases "F ! i = []")
    case True
    then show ?thesis using row[OF i] by (simp add: Let_def)
  next
    case False
    have d2m: "np_mean (map (\<lambda>x. np_mul x x) (map Some (F ! i)))
             = Some ((\<Sum>y\<leftarrow>F ! i. y\<^sup>2) / real (length (F ! i)))"
      unfolding sq using np_mean_map_Some[OF False, of "\<lambda>x. x * x"]
      by (simp add: power2_eq_square)
    show ?thesis
      unfolding row[OF i] d2m Let_def b1 b2 using g0
      by (simp add: np_div_def np_mul_def np_add_def np_sub_def power2_eq_square)
  qed
  have rhs: "finite_field (bias_formula ?g b1 b2 z F)
      = map (\<lambda>i. map Some (map (\<lambda>x. ?g (z ! i) / ?g 0 * b1 (z ! i) * x
                       + (?g (z ! i) / ?g 0)\<^sup>2 * b2 (z ! i)
                         * (x\<^sup>2 - (\<Sum>y\<leftarrow>F ! i. y\<^sup>2) / real (length (F ! i)))) (F ! i)))
            [0..<length F]"
    by (simp add: bias_formula_def finite_field_def)
  show ?thesis
    unfolding rhs biased_delta_def len
  proof (rule map_cong[OF refl])
    fix i assume "i \<in> set [0..<length F]"
    then have "i < length F" by simp
    then show "(let D = np_div (?g (z ! i)) (?g 0);
                  d2m = np_mean (map (\<lambda>x. np_mul x x) (lss_delta f ! i))
              in map (\<lambda>x.
                   let first = (case bias_1 cfg of
                                  None \<Rightarrow> Some 0
                                | Some b1 \<Rightarrow> np_add (Some 0) (np_mul (np_mul D (Some (b1 (z ! i)))) x))
                   in (case bias_2 cfg of
                         None \<Rightarrow> first
                       | Some b2 \<Rightarrow>
                           np_add first
                             (np_mul (np_mul (np_mul D D) (Some (b2 (z ! i)))) (np_sub (np_mul x x) d2m))))
                 (lss_delta f ! i))
           = map Some (map (\<lambda>x. ?g (z ! i) / ?g 0 * b1 (z ! i) * x
                       + (?g (z ! i) / ?g 0)\<^sup>2 * b2 (z ! i)
                         * (x\<^sup>2 - (\<Sum>y\<leftarrow>F ! i. y\<^sup>2) / real (length (F ! i)))) (F ! i))"
      by (rule rowi)
  qed
qed


lemma GenerateBiasedFieldBase_process_finite:
  assumes fin: "lss_delta (h ! f_ref) = finite_field F"
    and z: "shell_redshifts cfg (h ! f_ref) = Inr z"
    and b1: "bias_1 cfg = Some b1" and b2: "bias_2 cfg = Some b2"
    and ln: "\<not> cfg_lognormal cfg"
    and g0: "growth_factor (lss_cosmology (h ! f_ref)) 0 \<noteq> 0"
  shows "GenerateBiasedFieldBase_process cfg h f_ref
       = Inr (length h,
              h @ [(new_BiasedLSS (h ! f_ref))
                     \<lparr>lss_lightcone := cfg_lightcone cfg, lss_fixed_redshift := cfg_redshift cfg,
                      lss_delta := finite_field
                        (bias_formula (growth_factor (lss_cosmology (h ! f_ref))) b1 b2 z F)\<rparr>])"
  using z ln biased_delta_finite[OF fin b1 b2 g0, of z]
  by (simp add: GenerateBiasedFieldBase_process_def Let_def alloc_def)

text \<open>
  Claim C5, as amended. Let \<open>f\<close> be an initial field with a finite \<open>delta\<close> and redshift
  labels \<open>zs\<close>, one per shell, in a cosmology whose growth factor is not zero today, and
  let both bias orders be implemented and the lognormal option be off. Then \<open>process\<close>
  returns a newly created field whose \<open>delta\<close> is
  \<open>D(z) b1(z) delta_L + D(z)\<^sup>2 b2(z) (delta_L\<^sup>2 - <delta_L\<^sup>2>)\<close> with the mean taken over the
  pixels of each shell and \<open>D(z) = growth_factor(z) / growth_factor(0)\<close>, where \<open>z\<close> is the
  redshift label of the shell when \<open>lightcone\<close> is set and the configured \<open>redshift\<close>, the
  same for every shell, when it is not.
\<close>

theorem GenerateBiasedFieldBase_process_delta:
  assumes ref: "f_ref < length h"
    and fin: "lss_delta (h ! f_ref) = finite_field F"
    and lab: "lss_redshift (h ! f_ref) = Some zs"
    and shells: "length zs = length F" "length (lss_chi (h ! f_ref)) = length F"
    and fixed: "cfg_lightcone cfg \<or> cfg_redshift cfg = Some r"
    and b1: "bias_1 cfg = Some b1" and b2: "bias_2 cfg = Some b2"
    and ln: "\<not> cfg_lognormal cfg"
    and g0: "growth_factor (lss_cosmology (h ! f_ref)) 0 \<noteq> 0"
  shows "\<exists>b. GenerateBiasedFieldBase_process cfg h f_ref = Inr (length h, h @ [b])
           \<and> lss_delta b = finite_field
                (bias_formula (growth_factor (lss_cosmology (h ! f_ref))) b1 b2
                   (if cfg_lightcone cfg then zs else replicate (length (lss_chi (h ! f_ref))) r) F)"
proof -
  have z: "shell_redshifts cfg (h ! f_ref)
         = Inr (if cfg_lightcone cfg then zs else replicate (length (lss_chi (h ! f_ref))) r)"
    using lab fixed by (auto simp: shell_redshifts_def)
  show ?thesis
    unfolding GenerateBiasedFieldBase_process_finite[OF fin z b1 b2 ln g0] by simp
qed

lemma example_field_facts:
  "lss_delta example_field = finite_field (replicate 3 (replicate 12 1))"
  "lss_redshift example_field = Some [1, 2, 3]"
  "growth_factor (lss_cosmology example_field) = (\<lambda>z. 1 / (1 + z))"
  "lss_chi example_field = [1, 2, 3]"
  by (simp_all add: example_field_def example_cosmology_def)

lemma example_field_delta0:
  "lss_delta ([example_field] ! 0) = finite_field (replicate 3 (replicate 12 1))"
  by (simp add: example_field_facts)

lemma example_bias_facts:
  "cfg_lightcone example_fixed_epoch_bias = False"
  "cfg_redshift example_fixed_epoch_bias = Some 0"
  "cfg_lognormal example_fixed_epoch_bias = False"
  "bias_1 example_fixed_epoch_bias = Some (\<lambda>z. 1)"
  "bias_2 example_fixed_epoch_bias = Some (\<lambda>z. 0)"
  by (simp_all add: example_fixed_epoch_bias_def)

lemma bias_formula_example:
  "bias_formula (\<lambda>z. 1 / (1 + z)) (\<lambda>z. 1) (\<lambda>z. 0) z (replicate 3 (replicate 12 1))
     = map (\<lambda>i. replicate 12 (1 / (1 + z ! i))) [0..<3]"
  by (simp add: bias_formula_def map_replicate_const cong: map_cong)

lemma bias_formula_example_fixed:
  "bias_formula (\<lambda>z. 1 / (1 + z)) (\<lambda>z. 1) (\<lambda>z. 0) [0, 0, 0] (replicate 3 (replicate 12 1))
     = replicate 3 (replicate 12 1)"
  unfolding bias_formula_example
  by (rule nth_equalityI) (simp_all add: less_Suc_eq numeral_3_eq_3)

lemma bias_formula_example_labels:
  "bias_formula (\<lambda>z. 1 / (1 + z)) (\<lambda>z. 1) (\<lambda>z. 0) [1, 2, 3] (replicate 3 (replicate 12 1)) ! 0 ! 0
     = 1 / 2"
  unfolding bias_formula_example by (simp add: upt_conv_Cons)

lemma example_shell_redshifts:
  "shell_redshifts example_fixed_epoch_bias ([example_field] ! 0) = Inr [0, 0, 0]"
  by (simp add: shell_redshifts_def example_bias_facts example_field_facts)

theorem GenerateBiasedFieldBase_process_delta_witness:
  "\<exists>b. GenerateBiasedFieldBase_process example_fixed_epoch_bias [example_field] 0 = Inr (1, [example_field, b])
      \<and> lss_delta b = finite_field (replicate 3 (replicate 12 1))"
proof -
  have "\<exists>b. GenerateBiasedFieldBase_process example_fixed_epoch_bias [example_field] 0
               = Inr (length [example_field], [example_field] @ [b])
           \<and> lss_delta b = finite_field
                (bias_formula (growth_factor (lss_cosmology ([example_field] ! 0))) (\<lambda>z. 1) (\<lambda>z. 0)
                   (if cfg_lightcone example_fixed_epoch_bias then [1, 2, 3]
                    else replicate (length (lss_chi ([example_field] ! 0))) 0)
                   (replicate 3 (replicate 12 1)))"
    by (rule GenerateBiasedFieldBase_process_delta)
       (simp_all add: example_field_facts example_bias_facts)
  moreover have "(if cfg_lightcone example_fixed_epoch_bias then [1, 2, 3]
                    else replicate (length (lss_chi ([example_field] ! 0))) 0) = [0, 0, 0 :: real]"
    by (simp add: example_field_facts example_bias_facts)
  moreover have "growth_factor (lss_cosmology ([example_field] ! 0)) = (\<lambda>z. 1 / (1 + z))"
    by (simp add: example_field_facts)
  ultimately show ?thesis
    by (simp only: bias_formula_example_fixed) simp
qed

text \<open>
  Claim C5 as stated fails without \<open>lightcone\<close>: for the example field, whose shells are
  labelled with the redshifts \<open>1, 2, 3\<close>, and a task configured for the fixed redshift
  \<open>0\<close>, the returned \<open>delta\<close> is not the formula evaluated at the labels.
\<close>

theorem GenerateBiasedFieldBase_process_labels_counterexample:
  "case GenerateBiasedFieldBase_process example_fixed_epoch_bias [example_field] 0 of
     Inl e \<Rightarrow> False
   | Inr (b_ref, h') \<Rightarrow>
       lss_delta (h' ! b_ref)
         \<noteq> finite_field (bias_formula (\<lambda>z. 1 / (1 + z)) (\<lambda>z. 1) (\<lambda>z. 0) [1, 2, 3]
                           (replicate 3 (replicate 12 1)))"
proof -
  have g0: "growth_factor (lss_cosmology ([example_field] ! 0)) 0 \<noteq> 0"
    by (simp add: example_field_facts)
  have g: "growth_factor (lss_cosmology ([example_field] ! 0)) = (\<lambda>z. 1 / (1 + z))"
    by (simp add: example_field_facts)
  have ln: "\<not> cfg_lognormal example_fixed_epoch_bias" by (simp add: example_bias_facts)
  let ?code = "bias_formula (\<lambda>z. 1 / (1 + z)) (\<lambda>z. 1) (\<lambda>z. 0) [0, 0, 0] (replicate 3 (replicate 12 1))"
  let ?spec = "bias_formula (\<lambda>z. 1 / (1 + z)) (\<lambda>z. 1) (\<lambda>z. 0) [1, 2, 3] (replicate 3 (replicate 12 1))"
  have "?code ! 0 ! 0 = (1::real)"
    unfolding bias_formula_example_fixed by (simp add: numeral_3_eq_3)
  then have "?code \<noteq> ?spec" using bias_formula_example_labels by auto
  moreover have "inj finite_field"
    by (auto simp: finite_field_def inj_on_def intro!: inj_mapI)
  ultimately have ne: "finite_field ?code \<noteq> finite_field ?spec"
    by (auto dest: injD)
  show ?thesis
    unfolding GenerateBiasedFieldBase_process_finite
        [OF example_field_delta0 example_shell_redshifts example_bias_facts(4) example_bias_facts(5) ln g0]
      g
    using ne by simp
qed

section \<open>Pipeline stages and object identity\<close>

lemma alloc_new_object: "alloc h obj = (r, h') \<Longrightarrow> new_object h r h'"
  by (auto simp: alloc_def new_object_def)

lemma bias_new_object:
  "GenerateBiasedFieldBase_process cfg h f_ref = Inr (r, h') \<Longrightarrow> new_object h r h'"
  by (auto simp: GenerateBiasedFieldBase_process_def Let_def split: sum.splits if_splits
      intro: alloc_new_object)

lemma linear_new_object:
  "LinearDynamics_process U cfg h initial_ref biased_ref = Inr (r, h') \<Longrightarrow> new_object h r h'"
  by (auto simp: LinearDynamics_process_def Let_def split: sum.splits option.splits prod.splits
      intro: alloc_new_object)

lemma zeldovich_new_object:
  "ZeldovichDynamics_process U P cfg h initial_ref biased_ref = Inr (r, h') \<Longrightarrow> new_object h r h'"
  by (auto simp: ZeldovichDynamics_process_def Let_def split: sum.splits option.splits prod.splits
      intro: alloc_new_object)

lemma fog_new_object:
  "alpha_FoG cfg \<noteq> 0 \<Longrightarrow> FingersOfGod_process cfg h field_ref = Inr (r, h') \<Longrightarrow> new_object h r h'"
  by (auto simp: FingersOfGod_process_def Let_def split: sum.splits option.splits
      intro: alloc_new_object)

lemma fog_off_same_object:
  "alpha_FoG cfg = 0 \<Longrightarrow> FingersOfGod_process cfg h field_ref = Inr (field_ref, h)"
  by (simp add: FingersOfGod_process_def)

lemma shot_noise_in_place:
  assumes "AddCorrelatedShotNoise_process cfg h input_ref = Inr (r, h')"
  shows "r = input_ref \<and> length h' = length h \<and> (\<forall>a<length h. a \<noteq> input_ref \<longrightarrow> h' ! a = h ! a)"
  using assms
  by (auto simp: AddCorrelatedShotNoise_process_def Let_def split: sum.splits)


lemma new_object_nth: "new_object h r h' \<Longrightarrow> a < length h \<Longrightarrow> h' ! a = h ! a"
  by (metis new_object_def nth_take)

text \<open>
  Claim C6, as amended. Every stage that evolves a field works on a reference into the store of
  containers. \<open>GenerateBiasedFieldBase.process\<close>, \<open>LinearDynamics.process\<close>,
  \<open>ZeldovichDynamics.process\<close> and \<open>FingersOfGod.process\<close> with \<open>alpha_FoG \<noteq> 0\<close> return, whenever
  they return, a reference to a newly allocated container: it differs from every input reference,
  and the density of every input container is what it was. \<open>FingersOfGod.process\<close> with
  \<open>alpha_FoG = 0\<close> returns the reference it was given and an unchanged store, so no new container
  exists. \<open>AddCorrelatedShotNoise.process\<close> returns the reference it was given, the store keeps
  its length, and every other container is untouched: it works in place.
\<close>

theorem stages_return_new_fields:
  assumes f: "f_ref < length h" and i: "initial_ref < length h" and b: "biased_ref < length h"
  shows "(\<forall>r h'. GenerateBiasedFieldBase_process bc h f_ref = Inr (r, h') \<longrightarrow>
             new_object h r h' \<and> r \<noteq> f_ref \<and> lss_delta (h' ! f_ref) = lss_delta (h ! f_ref))
       \<and> (\<forall>r h'. LinearDynamics_process U dc h initial_ref biased_ref = Inr (r, h') \<longrightarrow>
             new_object h r h' \<and> r \<noteq> initial_ref \<and> r \<noteq> biased_ref
             \<and> lss_delta (h' ! initial_ref) = lss_delta (h ! initial_ref)
             \<and> lss_delta (h' ! biased_ref) = lss_delta (h ! biased_ref))
       \<and> (\<forall>r h'. ZeldovichDynamics_process U P dc h initial_ref biased_ref = Inr (r, h') \<longrightarrow>
             new_object h r h' \<and> r \<noteq> initial_ref \<and> r \<noteq> biased_ref
             \<and> lss_delta (h' ! initial_ref) = lss_delta (h ! initial_ref)
             \<and> lss_delta (h' ! biased_ref) = lss_delta (h ! biased_ref))
       \<and> (\<forall>r h'. alpha_FoG fc \<noteq> 0 \<longrightarrow> FingersOfGod_process fc h biased_ref = Inr (r, h') \<longrightarrow>
             new_object h r h' \<and> r \<noteq> biased_ref
             \<and> lss_delta (h' ! biased_ref) = lss_delta (h ! biased_ref))
       \<and> (alpha_FoG fc = 0 \<longrightarrow> FingersOfGod_process fc h biased_ref = Inr (biased_ref, h))
       \<and> (\<forall>r h'. AddCorrelatedShotNoise_process sc h biased_ref = Inr (r, h') \<longrightarrow>
             r = biased_ref \<and> length h' = length h
             \<and> (\<forall>a<length h. a \<noteq> biased_ref \<longrightarrow> h' ! a = h ! a))"
proof -
  have fresh: "r \<noteq> a \<and> lss_delta (h' ! a) = lss_delta (h ! a)"
    if "new_object h r h'" "a < length h" for r h' a
    using that new_object_nth[OF that] by (auto simp: new_object_def)
  show ?thesis
    using bias_new_object[of bc h f_ref] linear_new_object[of U dc h initial_ref biased_ref]
      zeldovich_new_object[of U P dc h initial_ref biased_ref] fog_new_object[of fc h biased_ref]
      fog_off_same_object[of fc h biased_ref] shot_noise_in_place[of sc h biased_ref]
      fresh f i b
    by (intro conjI allI impI) blast+
qed


lemma linear_returns:
  assumes "validate_fields (h ! initial_ref) (h ! biased_ref) = None"
    and "get_props (h ! biased_ref) = Inr p"
  shows "\<exists>obj. LinearDynamics_process U cfg h initial_ref biased_ref = Inr (alloc h obj)"
  using assms by (cases p) (auto simp add: LinearDynamics_process_def Let_def)

lemma za_density_sph_returns:
  assumes "shape delta_bias = [nchi, npix]" and "npix2nside npix = Inr ns"
    and "validate_shapes psi delta_m chi out nchi npix = None"
  shows "fst (za_density_sph P psi delta_bias delta_m chi out) = None"
  using assms by (simp add: za_density_sph_def)

lemma zeldovich_sph_returns:
  assumes v: "validate_fields (h ! initial_ref) (h ! biased_ref) = None"
    and p: "get_props (h ! biased_ref) = Inr (ns, za)"
    and s: "sph cfg"
    and rows: "length (lss_delta (h ! biased_ref)) = length (lss_chi (h ! biased_ref))"
              "length (lss_delta (h ! initial_ref)) = length (lss_chi (h ! biased_ref))"
    and psi: "shape (displacement U (redshift_space cfg) (h ! initial_ref) (lss_chi (h ! biased_ref)) za)
                = [3, length (lss_chi (h ! biased_ref)), length (lss_pixel (h ! biased_ref))]"
  shows "\<exists>obj. ZeldovichDynamics_process U P cfg h initial_ref biased_ref = Inr (alloc h obj)"
proof -
  let ?b = "h ! biased_ref" and ?i = "h ! initial_ref"
  let ?nchi = "length (lss_chi ?b)" and ?npix = "length (lss_pixel ?b)"
  let ?vpsi = "displacement U (redshift_space cfg) ?i (lss_chi ?b) za"
  let ?dm = "array2 (map (\<lambda>i. map (\<lambda>x. np_mul x (growth_D ?b za i)) (lss_delta ?i ! i))
                          [0..<length (lss_delta ?i)]) ?npix"
  let ?db = "array2 (lss_delta ?b) ?npix"
  let ?out = "array2 (lss_delta (new_BiasedLSS ?b)) ?npix"
  have ns: "npix2nside ?npix = Inr ns"
    using p by (auto simp: get_props_def split: sum.splits if_splits option.splits)
  have sh: "shape ?db = [?nchi, ?npix]" using rows by (simp add: array2_def)
  have val: "validate_shapes ?vpsi ?dm (array1 (lss_chi ?b)) ?out ?nchi ?npix = None"
    using rows psi
    by (simp add: validate_shapes_None_iff array2_def array1_def new_BiasedLSS_def)
  have "fst (za_density_sph P ?vpsi ?db ?dm (array1 (lss_chi ?b)) ?out) = None"
    using sh ns val by (rule za_density_sph_returns)
  then obtain out' where "za_density_sph P ?vpsi ?db ?dm (array1 (lss_chi ?b)) ?out = (None, out')"
    by (cases "za_density_sph P ?vpsi ?db ?dm (array1 (lss_chi ?b)) ?out") auto
  then show ?thesis
    using v p s by (auto simp add: ZeldovichDynamics_process_def Let_def)
qed

lemma fog_returns:
  assumes "alpha_FoG cfg \<noteq> 0" and "lss_redshift (h ! field_ref) = Some z"
    and "exponential_FoG_kernel (lss_chi (h ! field_ref))
           (Array (map (\<lambda>s. alpha_FoG cfg * s) (map (sigma_P cfg) z)))
           (Array (map (growth_factor (lss_cosmology (h ! field_ref))) z)) = Inr K"
    and "\<forall>row\<in>set K. length row = length (lss_delta (h ! field_ref))"
  shows "\<exists>obj. FingersOfGod_process cfg h field_ref = Inr (alloc h obj)"
  using assms by (auto simp add: FingersOfGod_process_def Let_def np_matmul_def)

lemma shot_noise_returns:
  assumes "calculate_width (lss_chi (h ! input_ref)) = Inr width"
  shows "\<exists>obj. AddCorrelatedShotNoise_process cfg h input_ref = Inr (input_ref, h[input_ref := obj])"
  using assms by (auto simp add: AddCorrelatedShotNoise_process_def Let_def)


lemma example_biased_facts:
  "lss_delta example_biased = finite_field (replicate 3 (replicate 12 1))"
  "lss_redshift example_biased = Some [1, 2, 3]"
  "lss_chi example_biased = [1, 2, 3]"
  "lss_pixel example_biased = [0..<12]"
  "lss_pixel example_field = [0..<12]"
  "lss_lightcone example_biased = True"
  "growth_factor (lss_cosmology example_biased) = (\<lambda>z. 1 / (1 + z))"
  by (simp_all add: example_biased_def example_field_def example_cosmology_def)

lemma example_validate: "validate_fields example_field example_biased = None"
  by (simp add: validate_fields_def example_biased_facts example_field_facts)

lemma example_get_props: "get_props example_biased = Inr (1, [1, 2, 3])"
  by (simp add: get_props_def example_biased_facts npix2nside_12)

lemma calculate_width_123: "calculate_width [1, 2, 3] = Inr [1, 1, 1]"
  by (simp add: calculate_width_def Let_def upt_conv_Cons)

lemma exponential_FoG_kernel_returns:
  assumes cw: "calculate_width chi = Inr dchi" and w: "\<forall>w\<in>set dchi. w \<noteq> 0"
    and sl: "length sigmaP = length chi" and sp: "\<forall>s\<in>set sigmaP. 0 < s"
    and dl: "length D = length chi" and dp: "\<forall>d\<in>set D. 0 < d"
  shows "\<exists>K. exponential_FoG_kernel chi (Array sigmaP) (Array D) = Inr K
      \<and> (\<forall>row\<in>set K. length row = length chi)"
proof (rule exponential_FoG_kernel_explicit[OF cw w sl sp dl dp])
  fix k :: "nat \<Rightarrow> nat \<Rightarrow> real"
  assume eq: "exponential_FoG_kernel chi (Array sigmaP) (Array D)
       = Inr (map (\<lambda>i. map (\<lambda>j. Some (k i j / (\<Sum>j\<leftarrow>[0..<length chi]. k i j) / D ! j * D ! i))
                           [0..<length chi]) [0..<length chi])"
  show ?thesis unfolding eq by (simp del: upt_Suc)
qed

lemma example_kernel:
  "\<exists>K. exponential_FoG_kernel [1, 2, 3] (Array [1, 1, 1]) (Array [1 / 2, 1 / 3, 1 / 4]) = Inr K
      \<and> (\<forall>row\<in>set K. length row = 3)"
  using exponential_FoG_kernel_returns[OF calculate_width_123, of "[1, 1, 1]" "[1 / 2, 1 / 3, 1 / 4]"]
  by (simp add: numeral_3_eq_3)

theorem stages_return_new_fields_witness:
  "(\<exists>r h'. GenerateBiasedFieldBase_process example_fixed_epoch_bias [example_field, example_biased] 0
              = Inr (r, h')
          \<and> new_object [example_field, example_biased] r h' \<and> r \<noteq> 0)
 \<and> (\<exists>r h'. LinearDynamics_process unit_lssutil \<lparr>redshift_space = True, sph = True\<rparr>
              [example_field, example_biased] 0 1 = Inr (r, h')
          \<and> new_object [example_field, example_biased] r h' \<and> r \<noteq> 0 \<and> r \<noteq> 1)
 \<and> (\<exists>r h'. ZeldovichDynamics_process unit_lssutil unit_pmesh \<lparr>redshift_space = True, sph = True\<rparr>
              [example_field, example_biased] 0 1 = Inr (r, h')
          \<and> new_object [example_field, example_biased] r h' \<and> r \<noteq> 0 \<and> r \<noteq> 1)
 \<and> (\<exists>r h'. FingersOfGod_process (example_fog 1) [example_field, example_biased] 1 = Inr (r, h')
          \<and> new_object [example_field, example_biased] r h' \<and> r \<noteq> 1)
 \<and> FingersOfGod_process (example_fog 0) [example_field, example_biased] 1
       = Inr (1, [example_field, example_biased])
 \<and> (\<exists>r h'. AddCorrelatedShotNoise_process example_shot_noise [example_field, example_biased] 1
              = Inr (r, h')
          \<and> r = 1 \<and> length h' = 2)"
proof -
  let ?h = "[example_field, example_biased]"
  let ?dc = "\<lparr>redshift_space = True, sph = True\<rparr>"
  have r0: "(0::nat) < length ?h" and r1: "(1::nat) < length ?h" by simp_all
  note T1 = stages_return_new_fields[OF r0 r0 r1, of example_fixed_epoch_bias unit_lssutil ?dc
      unit_pmesh "example_fog 1" example_shot_noise]
  note T0 = stages_return_new_fields[OF r0 r0 r1, of example_fixed_epoch_bias unit_lssutil ?dc
      unit_pmesh "example_fog 0" example_shot_noise]
  have h0: "?h ! 0 = example_field" and h1: "?h ! 1 = example_biased" by simp_all
  have bias: "\<exists>r h'. GenerateBiasedFieldBase_process example_fixed_epoch_bias ?h 0 = Inr (r, h')"
  proof -
    have fin: "lss_delta (?h ! 0) = finite_field (replicate 3 (replicate 12 1))"
      by (simp add: example_field_facts)
    have z: "shell_redshifts example_fixed_epoch_bias (?h ! 0) = Inr [0, 0, 0]"
      by (simp add: shell_redshifts_def example_bias_facts example_field_facts)
    have g0: "growth_factor (lss_cosmology (?h ! 0)) 0 \<noteq> 0" by (simp add: example_field_facts)
    have ln: "\<not> cfg_lognormal example_fixed_epoch_bias" by (simp add: example_bias_facts)
    show ?thesis
      unfolding GenerateBiasedFieldBase_process_finite
        [OF fin z example_bias_facts(4) example_bias_facts(5) ln g0]
      by blast
  qed
  have lin: "\<exists>r h'. LinearDynamics_process unit_lssutil ?dc ?h 0 1 = Inr (r, h')"
  proof -
    have "\<exists>obj. LinearDynamics_process unit_lssutil ?dc ?h 0 1 = Inr (alloc ?h obj)"
      by (rule linear_returns[where p = "(1, [1, 2, 3])"])
         (simp_all add: example_validate example_get_props)
    then show ?thesis by (auto simp: alloc_def)
  qed
  have zel: "\<exists>r h'. ZeldovichDynamics_process unit_lssutil unit_pmesh ?dc ?h 0 1 = Inr (r, h')"
  proof -
    have "\<exists>obj. ZeldovichDynamics_process unit_lssutil unit_pmesh ?dc ?h 0 1 = Inr (alloc ?h obj)"
      by (rule zeldovich_sph_returns[where ns = 1 and za = "[1, 2, 3]"])
         (simp_all add: example_validate example_get_props example_biased_facts example_field_facts
            unit_lssutil_def zeros_def finite_field_def)
    then show ?thesis by (auto simp: alloc_def)
  qed
  have fog: "\<exists>r h'. FingersOfGod_process (example_fog 1) ?h 1 = Inr (r, h')"
  proof -
    obtain K where K: "exponential_FoG_kernel [1, 2, 3] (Array [1, 1, 1]) (Array [1 / 2, 1 / 3, 1 / 4]) = Inr K"
      and rows: "\<forall>row\<in>set K. length row = 3"
      using example_kernel by blast
    have "\<exists>obj. FingersOfGod_process (example_fog 1) ?h 1 = Inr (alloc ?h obj)"
      by (rule fog_returns[where z = "[1, 2, 3]" and K = K])
         (simp_all add: example_fog_def example_biased_facts K rows finite_field_def)
    then show ?thesis by (auto simp: alloc_def)
  qed
  have shot: "\<exists>r h'. AddCorrelatedShotNoise_process example_shot_noise ?h 1 = Inr (r, h')"
  proof -
    have "\<exists>obj. AddCorrelatedShotNoise_process example_shot_noise ?h 1 = Inr (1, ?h[1 := obj])"
      by (rule shot_noise_returns[where width = "[1, 1, 1]"])
         (simp add: example_biased_facts calculate_width_123)
    then show ?thesis by blast
  qed
  have a1: "alpha_FoG (example_fog 1) \<noteq> 0" and a0: "alpha_FoG (example_fog 0) = 0"
    by (simp_all add: example_fog_def)
  show ?thesis
  proof (intro conjI)
    show "\<exists>r h'. GenerateBiasedFieldBase_process example_fixed_epoch_bias ?h 0 = Inr (r, h')
          \<and> new_object ?h r h' \<and> r \<noteq> 0"
      using bias T1 by blast
    show "\<exists>r h'. LinearDynamics_process unit_lssutil ?dc ?h 0 1 = Inr (r, h')
          \<and> new_object ?h r h' \<and> r \<noteq> 0 \<and> r \<noteq> 1"
      using lin T1 by blast
    show "\<exists>r h'. ZeldovichDynamics_process unit_lssutil unit_pmesh ?dc ?h 0 1 = Inr (r, h')
          \<and> new_object ?h r h' \<and> r \<noteq> 0 \<and> r \<noteq> 1"
      using zel T1 by blast
    show "\<exists>r h'. FingersOfGod_process (example_fog 1) ?h 1 = Inr (r, h')
          \<and> new_object ?h r h' \<and> r \<noteq> 1"
      using fog a1 T1 by blast
    show "FingersOfGod_process (example_fog 0) ?h 1 = Inr (1, ?h)"
      using a0 T0 by blast
    show "\<exists>r h'. AddCorrelatedShotNoise_process example_shot_noise ?h 1 = Inr (r, h')
          \<and> r = 1 \<and> length h' = 2"
      using shot T1 by (metis length_Cons list.size(3) One_nat_def Suc_1)
  qed
qed

text \<open>
  Claim C6 as stated fails for \<open>FingersOfGod.process\<close> with \<open>alpha_FoG = 0\<close>: the stage
  returns the reference it was given, and creates nothing.
\<close>

theorem FingersOfGod_process_off_counterexample:
  "FingersOfGod_process (example_fog 0) [example_field, example_biased] 1
     = Inr (1, [example_field, example_biased])
   \<and> \<not> new_object [example_field, example_biased] 1 [example_field, example_biased]"
  by (simp add: FingersOfGod_process_def example_fog_def new_object_def)

section \<open>The radius grids of the correlation function\<close>

lemma slice_from_step_decimate:
  assumes "length xs = n * u" "0 < u"
  shows "slice_from_step (u - 1) u xs = map (\<lambda>m. xs ! (u - 1 + m * u)) [0..<n]"
  using assms by (simp add: slice_from_step_def)

lemma logspace_nth:
  "j < num \<Longrightarrow> logspace start stop num False ! j
     = 10 powr (start + real j * ((stop - start) / real num))"
  by (simp add: logspace_def)

lemma length_logspace: "length (logspace start stop num endpoint) = num"
  by (simp add: logspace_def)

lemma decimated_index:
  assumes "m < n" "0 < u"
  shows "n * u - Suc (u - 1 + m * u) = (n - 1 - m) * u" "(n - 1 - m) * u < n * u"
proof -
  have "Suc (u - 1) = u" using assms by simp
  then have "Suc (u - 1 + m * u) = (m + 1) * u" by simp
  moreover have "n = (n - 1 - m) + (m + 1)" using assms by simp
  then have "n * u = (n - 1 - m) * u + (m + 1) * u" by (metis add_mult_distrib)
  ultimately show "n * u - Suc (u - 1 + m * u) = (n - 1 - m) * u" by simp
  show "(n - 1 - m) * u < n * u" using assms by simp
qed

lemma reciprocal_grid_decimated:
  assumes u: "0 < u"
  shows "slice_from_step (u - 1) u (map (\<lambda>x. 1 / x) (rev (logspace (- rhigh) (- rlow) (n * u) False)))
       = map (\<lambda>m. 1 / 10 powr (- rhigh + real (n - 1 - m) * ((rhigh - rlow) / real n))) [0..<n]"
proof -
  let ?k = "logspace (- rhigh) (- rlow) (n * u) False"
  let ?r = "map (\<lambda>x. 1 / x) (rev ?k)"
  have len: "length ?r = n * u" by (simp add: length_logspace)
  have "slice_from_step (u - 1) u ?r = map (\<lambda>m. ?r ! (u - 1 + m * u)) [0..<n]"
    by (rule slice_from_step_decimate[OF len u])
  also have "\<dots> = map (\<lambda>m. 1 / 10 powr (- rhigh + real (n - 1 - m) * ((rhigh - rlow) / real n))) [0..<n]"
  proof (rule map_cong[OF refl])
    fix m assume "m \<in> set [0..<n]"
    then have m: "m < n" by simp
    have lt: "u - 1 + m * u < n * u"
    proof -
      have "u - 1 + m * u < (m + 1) * u" using u by simp
      also have "\<dots> \<le> n * u" using m by (intro mult_right_mono) simp_all
      finally show ?thesis .
    qed
    have "?r ! (u - 1 + m * u) = 1 / ?k ! (n * u - Suc (u - 1 + m * u))"
      using lt by (simp add: rev_nth length_logspace)
    also have "\<dots> = 1 / ?k ! ((n - 1 - m) * u)"
      by (simp only: decimated_index(1)[OF m u])
    also have "\<dots> = 1 / 10 powr (- rhigh + real ((n - 1 - m) * u) * ((- rlow - - rhigh) / real (n * u)))"
      by (simp only: logspace_nth[OF decimated_index(2)[OF m u]])
    also have "real ((n - 1 - m) * u) * ((- rlow - - rhigh) / real (n * u))
             = real (n - 1 - m) * ((rhigh - rlow) / real n)"
      using u by simp
    finally show "?r ! (u - 1 + m * u)
        = 1 / 10 powr (- rhigh + real (n - 1 - m) * ((rhigh - rlow) / real n))" .
  qed
  finally show ?thesis .
qed

lemma work_grid:
  assumes hankl: "\<forall>k P r xi. P2xi E k P = Inr (r, xi) \<longrightarrow> r = map (\<lambda>x. 1 / x) (rev k)"
    and w: "work E func rlow rhigh n ii = Inr (rt, xit)"
  shows "0 \<le> n" and
    "rt = map (\<lambda>m. 1 / 10 powr (- rhigh + real (nat n - 1 - m) * ((rhigh - rlow) / real (nat n))))
            [0..<nat n]"
proof -
  have nn: "\<not> n * int (2 ^ ii) < 0"
    using w by (auto simp: work_def np_logspace_def Let_def split: if_splits)
  then show n0: "0 \<le> n" by (simp add: mult_less_0_iff not_less)
  have num: "nat (n * int (2 ^ ii)) = nat n * 2 ^ ii"
    using n0 by (simp add: nat_mult_distrib)
  let ?k = "logspace (- rhigh) (- rlow) (nat n * 2 ^ ii) False"
  obtain r xi where p: "P2xi E ?k (func ?k) = Inr (r, xi)"
    and rt: "rt = slice_from_step (2 ^ ii - 1) (2 ^ ii) r"
    using w nn num
    by (auto simp: work_def np_logspace_def Let_def split: if_splits sum.splits)
  have r: "r = map (\<lambda>x. 1 / x) (rev ?k)" using hankl p by blast
  show "rt = map (\<lambda>m. 1 / 10 powr (- rhigh + real (nat n - 1 - m) * ((rhigh - rlow) / real (nat n))))
            [0..<nat n]"
    unfolding rt r by (rule reciprocal_grid_decimated) simp
qed

lemma isclose_refl: "isclose a a"
  by (simp add: isclose_def)

lemma np_allclose_refl: "np_allclose a a = Inr True"
  by (simp add: np_allclose_def list_all2_same isclose_refl)


lemma all_or_raise_Inl: "all_or_raise xs = Inl e \<Longrightarrow> Inl e \<in> set xs"
  by (induction xs rule: all_or_raise.induct) (auto split: sum.splits)

lemma all_or_raise_Inr: "all_or_raise xs = Inr ys \<Longrightarrow> xs = map Inr ys"
  by (induction xs arbitrary: ys rule: all_or_raise.induct) (auto split: sum.splits)

lemma all_or_raise_map_Inr: "all_or_raise (map Inr ys) = Inr ys"
  by (induction ys) simp_all

lemma assert_allclose_same: "\<forall>r\<in>set rs. r = r0 \<Longrightarrow> assert_allclose rs r0 = None"
  by (induction rs) (simp_all add: np_allclose_refl)

lemma cancel_cols_error: "cancel_cols t p prev cols newrow = Inl e \<Longrightarrow> e = ZeroDivisionError"
  by (induction cols arbitrary: newrow)
     (auto simp: Let_def py_pow_def split: sum.splits if_splits)

lemma build_table_error: "build_table es t p rows table = Inl e \<Longrightarrow> e = ZeroDivisionError"
  by (induction rows arbitrary: table)
     (auto simp del: cancel_cols.simps split: sum.splits dest: cancel_cols_error)

lemma richardson_apex_error: "richardson_apex es t = Inl e \<Longrightarrow> e \<noteq> AssertionError"
  by (auto simp: richardson_apex_def richardson_def Let_def
           split: sum.splits if_splits richardson_result.splits dest: build_table_error)

lemma richardson_arrays_error: "richardson_arrays estimates t = Inl e \<Longrightarrow> e \<noteq> AssertionError"
proof -
  assume a: "richardson_arrays estimates t = Inl e"
  show ?thesis
  proof (cases "estimates = []")
    case True then show ?thesis using a by (simp add: richardson_arrays_def)
  next
    case False
    then have "Inl e \<in> set (map (\<lambda>j. case those (map (\<lambda>e. e ! j) estimates) of
                          None \<Rightarrow> Inr None
                        | Some es \<Rightarrow> map_sum id Some (richardson_apex es t))
                  [0..<length (hd estimates)])"
      using a by (intro all_or_raise_Inl) (simp add: richardson_arrays_def)
    then obtain es where "map_sum id Some (richardson_apex es t) = Inl e"
      by (auto split: option.splits)
    then have "richardson_apex es t = Inl e" by (cases "richardson_apex es t") simp_all
    then show ?thesis by (rule richardson_apex_error)
  qed
qed

lemma boolean_index_error: "boolean_index keep xs = Inl e \<Longrightarrow> e = IndexError"
  by (simp add: boolean_index_def split: if_splits)

lemma boolean_index_all_error:
  "all_or_raise (map (boolean_index keep) xs) = Inl e \<Longrightarrow> e = IndexError"
  by (drule all_or_raise_Inl) (auto dest: boolean_index_error[OF sym])

lemma corr_hankl_richardson_no_assertion:
  assumes hankl: "\<forall>k P r xi. P2xi E k P = Inr (r, xi) \<longrightarrow> r = map (\<lambda>x. 1 / x) (rev k)"
    and lib: "\<forall>ii<nat richardson_n.
                 work E func (logrmin - pad_low) (logrmax + pad_high)
                   (py_int (samples_per_decade * (logrmax + pad_high - (logrmin - pad_low)))) ii
                 \<noteq> Inl AssertionError"
  shows "corr_hankl_richardson E func logrmin logrmax samples_per_decade richardson_n pad_low pad_high
           \<noteq> Inl AssertionError"
proof -
  let ?rlow = "logrmin - pad_low" and ?rhigh = "logrmax + pad_high"
  let ?n = "py_int (samples_per_decade * (?rhigh - ?rlow))"
  let ?ws = "map (work E func ?rlow ?rhigh ?n) [0..<nat richardson_n]"
  let ?res = "corr_hankl_richardson E func logrmin logrmax samples_per_decade richardson_n pad_low pad_high"
  show ?thesis
  proof (cases "all_or_raise ?ws")
    case (Inl e)
    then have "Inl e \<in> set ?ws" by (rule all_or_raise_Inl)
    then have "e \<noteq> AssertionError" using lib by auto
    moreover have "?res = Inl e" using Inl by (simp add: corr_hankl_richardson_def Let_def)
    ultimately show ?thesis by simp
  next
    case (Inr ws)
    show ?thesis
    proof (cases ws)
      case Nil
      then show ?thesis using Inr by (simp add: corr_hankl_richardson_def Let_def)
    next
      case (Cons w0 rest)
      obtain rs0 e0 where w0: "w0 = (rs0, e0)" by (cases w0)
      have ws: "?ws = map Inr ws" using Inr by (rule all_or_raise_Inr)
      have each: "\<exists>ii. work E func ?rlow ?rhigh ?n ii = Inr w" if "w \<in> set ws" for w
      proof -
        have "Inr w \<in> set ?ws" unfolding ws using that by simp
        then show ?thesis by auto
      qed
      have grid: "fst w = map (\<lambda>m. 1 / 10 powr (- ?rhigh + real (nat ?n - 1 - m)
                                  * ((?rhigh - ?rlow) / real (nat ?n)))) [0..<nat ?n]"
        if mem: "w \<in> set ws" for w
      proof -
        obtain ii where wi: "work E func ?rlow ?rhigh ?n ii = Inr (fst w, snd w)"
          using each[OF mem] by auto
        show ?thesis using work_grid(2)[OF hankl wi] .
      qed
      have "\<forall>r\<in>set (map fst rest). r = rs0"
        using grid[of w0] grid Cons w0 by auto
      then have ok: "assert_allclose (map fst rest) rs0 = None" by (rule assert_allclose_same)
      show ?thesis
        using Inr Cons w0 ok
        by (auto simp: corr_hankl_richardson_def Let_def simp del: list.map all_or_raise.simps
                 split: sum.splits
                 dest: boolean_index_error boolean_index_all_error richardson_arrays_error)
    qed
  qed
qed


lemma all_or_raise_all_Inr:
  "\<forall>x\<in>set xs. \<exists>y. x = Inr y \<Longrightarrow> \<exists>ys. all_or_raise xs = Inr ys"
  by (induction xs rule: all_or_raise.induct) auto

lemma two_power_int_minus_one: "0 < c \<Longrightarrow> (2::real) powi (int c * 1) - 1 \<noteq> 0"
proof -
  assume "0 < c"
  then have "(1::real) < 2 ^ c" by (intro one_less_power) simp_all
  then show ?thesis by simp
qed

lemma cancel_cols_two:
  "\<forall>c\<in>set cols. 0 < c \<Longrightarrow> \<exists>row. cancel_cols 2 1 prev cols newrow = Inr row"
proof (induction cols arbitrary: newrow)
  case Nil
  then show ?case by simp
next
  case (Cons c cols)
  have c: "0 < c" using Cons.prems by simp
  have rest: "\<forall>c\<in>set cols. 0 < c" using Cons.prems by simp
  show ?case
    using two_power_int_minus_one[OF c] Cons.IH[OF rest]
    by (simp add: Let_def py_pow_def)
qed

lemma build_table_two: "\<exists>tb. build_table es 2 1 rows table = Inr tb"
proof (induction rows arbitrary: table)
  case Nil
  then show ?case by simp
next
  case (Cons row_ind rows)
  have "\<forall>c\<in>set [1..<row_ind + 1]. 0 < c" by (simp del: upt_Suc)
  then obtain newrow where
    "cancel_cols 2 1 (if row_ind = 0 then [] else table ! (row_ind - 1)) [1..<row_ind + 1]
       [es ! row_ind] = Inr newrow"
    using cancel_cols_two by blast
  then show ?case using Cons.IH by (simp del: upt_Suc)
qed

lemma richardson_apex_two: "es \<noteq> [] \<Longrightarrow> \<exists>a. richardson_apex es 2 = Inr a"
  using build_table_two[of es "[0..<length es]" "[]"]
  by (auto simp: richardson_apex_def richardson_def Let_def)

lemma those_length: "those xs = Some ys \<Longrightarrow> length ys = length xs"
  by (induction xs arbitrary: ys) (auto split: option.splits)

lemma richardson_arrays_two:
  assumes "estimates \<noteq> []"
  shows "\<exists>F. richardson_arrays estimates 2 = Inr F"
proof -
  have "\<exists>y. (case those (map (\<lambda>e. e ! j) estimates) of
                None \<Rightarrow> Inr None
              | Some es \<Rightarrow> map_sum id Some (richardson_apex es 2)) = Inr y" for j
  proof (cases "those (map (\<lambda>e. e ! j) estimates)")
    case None
    then show ?thesis by simp
  next
    case (Some es)
    have "es \<noteq> []" using those_length[OF Some] assms by auto
    then obtain a where "richardson_apex es 2 = Inr a" using richardson_apex_two by blast
    then show ?thesis using Some by simp
  qed
  then show ?thesis
    using assms by (auto simp: richardson_arrays_def intro!: all_or_raise_all_Inr)
qed

lemma boolean_index_map: "boolean_index (map P xs) xs = Inr (filter P xs)"
proof -
  have "map snd (filter fst (zip (map P xs) xs)) = filter P xs"
    by (induction xs) simp_all
  then show ?thesis by (simp add: boolean_index_def)
qed

lemma slice_from_step_length:
  assumes "length xs = n * u" "0 < u"
  shows "length (slice_from_step (u - 1) u xs) = n"
  unfolding slice_from_step_decimate[OF assms] by simp

lemma work_returns:
  assumes hankl: "\<forall>k P. \<exists>xi. P2xi E k P = Inr (map (\<lambda>x. 1 / x) (rev k), xi)
                          \<and> length xi = length k"
    and n0: "0 \<le> n"
  shows "\<exists>xit. work E func rlow rhigh n ii
           = Inr (map (\<lambda>m. 1 / 10 powr (- rhigh + real (nat n - 1 - m)
                                  * ((rhigh - rlow) / real (nat n)))) [0..<nat n], xit)
         \<and> length xit = nat n"
proof -
  let ?u = "(2::nat) ^ ii"
  have num: "nat (n * int ?u) = nat n * ?u" "\<not> n * int ?u < 0"
    using n0 by (simp_all add: nat_mult_distrib not_less)
  let ?k = "logspace (- rhigh) (- rlow) (nat n * ?u) False"
  obtain xi where p: "P2xi E ?k (func ?k) = Inr (map (\<lambda>x. 1 / x) (rev ?k), xi)"
    and len: "length xi = length ?k"
    using hankl by blast
  have len': "length (map fst xi) = nat n * ?u" using len by (simp add: length_logspace)
  have u: "0 < ?u" by simp
  have w: "work E func rlow rhigh n ii
         = Inr (slice_from_step (?u - 1) ?u (map (\<lambda>x. 1 / x) (rev ?k)),
                slice_from_step (?u - 1) ?u (map fst xi))"
    using num p by (simp add: work_def np_logspace_def Let_def)
  show ?thesis
    unfolding w reciprocal_grid_decimated[OF u]
    using slice_from_step_length[OF len' u] by simp
qed

lemma corr_hankl_richardson_returns:
  assumes hankl: "\<forall>k P. \<exists>xi. P2xi E k P = Inr (map (\<lambda>x. 1 / x) (rev k), xi)
                          \<and> length xi = length k"
    and n0: "0 \<le> py_int (samples_per_decade * (logrmax + pad_high - (logrmin - pad_low)))"
    and rn: "0 < richardson_n"
  shows "\<exists>r F. corr_hankl_richardson E func logrmin logrmax samples_per_decade richardson_n
                  pad_low pad_high = Inr (r, F)"
proof -
  let ?rlow = "logrmin - pad_low" and ?rhigh = "logrmax + pad_high"
  let ?n = "py_int (samples_per_decade * (?rhigh - ?rlow))"
  let ?grid = "map (\<lambda>m. 1 / 10 powr (- ?rhigh + real (nat ?n - 1 - m)
                                  * ((?rhigh - ?rlow) / real (nat ?n)))) [0..<nat ?n]"
  let ?keep = "map (\<lambda>r. 0 < r \<and> logrmin \<le> log 10 r \<and> log 10 r \<le> logrmax) ?grid"
  have "\<forall>ii. \<exists>xit. work E func ?rlow ?rhigh ?n ii = Inr (?grid, xit) \<and> length xit = nat ?n"
    using work_returns[OF hankl n0] by blast
  then obtain x where x: "\<And>ii. work E func ?rlow ?rhigh ?n ii = Inr (?grid, x ii)"
    and lx: "\<And>ii. length (x ii) = nat ?n"
    by metis
  have upt: "[0..<nat richardson_n] = 0 # [1..<nat richardson_n]"
    using rn by (simp add: upt_conv_Cons)
  let ?rest = "map (\<lambda>ii. (?grid, x ii)) [1..<nat richardson_n]"
  have "map (work E func ?rlow ?rhigh ?n) [0..<nat richardson_n]
          = map Inr ((?grid, x 0) # ?rest)"
    unfolding upt by (simp add: x)
  then have ws: "all_or_raise (map (work E func ?rlow ?rhigh ?n) [0..<nat richardson_n])
          = Inr ((?grid, x 0) # ?rest)"
    by (simp only: all_or_raise_map_Inr)
  have ok: "assert_allclose (map fst ?rest) ?grid = None"
    by (rule assert_allclose_same) auto
  have bi: "boolean_index ?keep ?grid = Inr (filter (\<lambda>r. 0 < r \<and> logrmin \<le> log 10 r \<and> log 10 r \<le> logrmax) ?grid)"
    by (rule boolean_index_map)
  have "\<forall>y\<in>set (map (boolean_index ?keep) (x 0 # map snd ?rest)). \<exists>z. y = Inr z"
    by (auto simp: boolean_index_def lx)
  then obtain ests where ests: "all_or_raise (map (boolean_index ?keep) (x 0 # map snd ?rest)) = Inr ests"
    using all_or_raise_all_Inr by blast
  have "map (boolean_index ?keep) (x 0 # map snd ?rest) = map Inr ests"
    using ests by (rule all_or_raise_Inr)
  then have "ests \<noteq> []" by auto
  then obtain F where F: "richardson_arrays ests 2 = Inr F"
    using richardson_arrays_two by blast
  show ?thesis
    unfolding corr_hankl_richardson_def Let_def
    by (simp only: ws ok bi ests F sum.case list.case prod.case option.case) blast
qed


lemma unit_hankl_grid:
  "\<forall>k P r xi. P2xi unit_hankl k P = Inr (r, xi) \<longrightarrow> r = map (\<lambda>x. 1 / x) (rev k)"
  by (auto simp: unit_hankl_def)

lemma unit_hankl_returns:
  "\<forall>k P. \<exists>xi. P2xi unit_hankl k P = Inr (map (\<lambda>x. 1 / x) (rev k), xi) \<and> length xi = length k"
  by (simp add: unit_hankl_def)

text \<open>
  Claim C7. \<open>hankl.P2xi\<close> is a library routine; what the check needs from it is that the
  radii it returns are the reciprocals of the wavenumbers it was given, in reverse order. With
  that, the decimated radii \<open>r[(u - 1)::u]\<close> of every upsampling factor \<open>u = 2\<^sup>i\<^sup>i\<close> are, entry
  for entry, the radii of the first factor, \<open>np.allclose\<close> holds between them, and
  \<open>_corr_hankl_richardson\<close> does not raise \<open>AssertionError\<close> unless the library itself does.
\<close>

theorem corr_hankl_richardson_radii_match:
  assumes hankl: "\<forall>k P r xi. P2xi E k P = Inr (r, xi) \<longrightarrow> r = map (\<lambda>x. 1 / x) (rev k)"
  shows "(\<forall>ii rt xit rs0 e0.
            work E func rlow rhigh n ii = Inr (rt, xit) \<and> work E func rlow rhigh n 0 = Inr (rs0, e0)
            \<longrightarrow> rt = rs0 \<and> np_allclose rt rs0 = Inr True)
       \<and> ((\<forall>ii<nat richardson_n.
              work E func (logrmin - pad_low) (logrmax + pad_high)
                (py_int (samples_per_decade * (logrmax + pad_high - (logrmin - pad_low)))) ii
              \<noteq> Inl AssertionError)
          \<longrightarrow> corr_hankl_richardson E func logrmin logrmax samples_per_decade richardson_n
                pad_low pad_high \<noteq> Inl AssertionError)"
proof (intro conjI allI impI)
  fix ii rt xit rs0 e0
  assume w: "work E func rlow rhigh n ii = Inr (rt, xit) \<and> work E func rlow rhigh n 0 = Inr (rs0, e0)"
  have eq: "rt = rs0"
    using work_grid(2)[OF hankl conjunct1[OF w]] work_grid(2)[OF hankl conjunct2[OF w]] by simp
  show "rt = rs0" by (rule eq)
  show "np_allclose rt rs0 = Inr True" unfolding eq by (rule np_allclose_refl)
next
  assume "\<forall>ii<nat richardson_n.
              work E func (logrmin - pad_low) (logrmax + pad_high)
                (py_int (samples_per_decade * (logrmax + pad_high - (logrmin - pad_low)))) ii
              \<noteq> Inl AssertionError"
  then show "corr_hankl_richardson E func logrmin logrmax samples_per_decade richardson_n
                pad_low pad_high \<noteq> Inl AssertionError"
    by (rule corr_hankl_richardson_no_assertion[OF hankl])
qed

theorem corr_hankl_richardson_radii_match_witness:
  "(\<exists>rt xit e0. work unit_hankl flat_spectrum (- 2) 2 4 1 = Inr (rt, xit)
        \<and> work unit_hankl flat_spectrum (- 2) 2 4 0 = Inr (rt, e0)
        \<and> np_allclose rt rt = Inr True)
   \<and> (\<exists>r F. corr_hankl_richardson unit_hankl flat_spectrum 0 1 1 2 2 1 = Inr (r, F))
   \<and> corr_hankl_richardson unit_hankl flat_spectrum 0 1 1 2 2 1 \<noteq> Inl AssertionError"
proof -
  note T = corr_hankl_richardson_radii_match[of unit_hankl flat_spectrum "- 2" 2 4 2 0 2 1 1 1,
      OF unit_hankl_grid]
  obtain rt xit where w1: "work unit_hankl flat_spectrum (- 2) 2 4 1 = Inr (rt, xit)"
    using work_returns[of unit_hankl 4 flat_spectrum "- 2" 2 1, OF unit_hankl_returns] by auto
  obtain rs0 e0 where w0: "work unit_hankl flat_spectrum (- 2) 2 4 0 = Inr (rs0, e0)"
    using work_returns[of unit_hankl 4 flat_spectrum "- 2" 2 0, OF unit_hankl_returns] by auto
  have m: "rt = rs0 \<and> np_allclose rt rs0 = Inr True"
    using T w1 w0 by blast
  have works: "\<forall>ii<nat 2. work unit_hankl flat_spectrum (0 - 2) (1 + 1)
                (py_int (1 * (1 + 1 - (0 - 2)))) ii \<noteq> Inl AssertionError"
  proof (intro allI impI)
    fix ii
    obtain x where "work unit_hankl flat_spectrum (0 - 2) (1 + 1) (py_int (1 * (1 + 1 - (0 - 2)))) ii
        = Inr x"
      using work_returns[of unit_hankl "py_int (1 * (1 + 1 - (0 - 2)))" flat_spectrum "0 - 2" "1 + 1" ii,
          OF unit_hankl_returns]
      by (auto simp: py_int_def)
    then show "work unit_hankl flat_spectrum (0 - 2) (1 + 1) (py_int (1 * (1 + 1 - (0 - 2)))) ii
        \<noteq> Inl AssertionError" by simp
  qed
  have na: "corr_hankl_richardson unit_hankl flat_spectrum 0 1 1 2 2 1 \<noteq> Inl AssertionError"
    using T works by blast
  have ret: "\<exists>r F. corr_hankl_richardson unit_hankl flat_spectrum 0 1 1 2 2 1 = Inr (r, F)"
    by (rule corr_hankl_richardson_returns[OF unit_hankl_returns]) (simp_all add: py_int_def)
  show ?thesis using m w1 w0 na ret by blast
qed

section \<open>The radii returned by \<open>ps_to_corr\<close>\<close>

lemma sorted_wrt_map_upt:
  assumes "\<And>i j. i < j \<Longrightarrow> j < n \<Longrightarrow> f i < (f j :: real)"
  shows "sorted_wrt (<) (map f [0..<n])"
  using assms by (simp add: sorted_wrt_iff_nth_less)

lemma logspace_open_increasing:
  assumes "start < stop"
  shows "sorted_wrt (<) (logspace start stop num False)"
    and "\<forall>x\<in>set (logspace start stop num False). 0 < x \<and> x < 10 powr stop"
proof -
  let ?d = "(stop - start) / real num"
  show "sorted_wrt (<) (logspace start stop num False)"
    unfolding logspace_def if_False
  proof (rule sorted_wrt_map_upt)
    fix i j :: nat assume ij: "i < j" "j < num"
    then have "0 < ?d" using assms by simp
    moreover have "real i < real j" using ij by simp
    ultimately have "real i * ?d < real j * ?d"
      by (rule mult_strict_right_mono[rotated])
    then show "10 powr (start + real i * ?d) < 10 powr (start + real j * ?d)" by simp
  qed
  show "\<forall>x\<in>set (logspace start stop num False). 0 < x \<and> x < 10 powr stop"
  proof
    fix x assume "x \<in> set (logspace start stop num False)"
    then obtain k where k: "k < num" and x: "x = 10 powr (start + real k * ?d)"
      by (auto simp: logspace_def)
    have "real k * ?d < real num * ?d"
      using k assms by (intro mult_strict_right_mono) simp_all
    also have "\<dots> = stop - start" using k by simp
    finally have "start + real k * ?d < stop" by simp
    then show "0 < x \<and> x < 10 powr stop" unfolding x by simp
  qed
qed

lemma logspace_closed_increasing:
  assumes "start < stop"
  shows "sorted_wrt (<) (logspace start stop num True)"
    and "\<forall>x\<in>set (logspace start stop num True). 10 powr start \<le> x"
proof -
  let ?d = "(stop - start) / real (num - 1)"
  have d0: "0 \<le> ?d" using assms by simp
  show "sorted_wrt (<) (logspace start stop num True)"
    unfolding logspace_def if_True
  proof (rule sorted_wrt_map_upt)
    fix i j :: nat assume ij: "i < j" "j < num"
    then have "0 < ?d" using assms by simp
    moreover have "real i < real j" using ij by simp
    ultimately have "real i * ?d < real j * ?d"
      by (rule mult_strict_right_mono[rotated])
    then show "10 powr (start + real i * ?d) < 10 powr (start + real j * ?d)" by simp
  qed
  show "\<forall>x\<in>set (logspace start stop num True). 10 powr start \<le> x"
  proof
    fix x assume "x \<in> set (logspace start stop num True)"
    then obtain k where x: "x = 10 powr (start + real k * ?d)"
      by (auto simp: logspace_def)
    have "0 \<le> real k * ?d" using d0 by (intro mult_nonneg_nonneg) simp_all
    then show "10 powr start \<le> x" unfolding x by simp
  qed
qed

lemma reciprocal_grid_increasing:
  assumes d: "n \<le> 1 \<or> 0 < (rhigh - rlow) / real n"
  shows "sorted_wrt (<) (map (\<lambda>m. 1 / 10 powr (- rhigh + real (n - 1 - m) * ((rhigh - rlow) / real n)))
                            [0..<n])"
proof (rule sorted_wrt_map_upt)
  let ?d = "(rhigh - rlow) / real n"
  fix i j :: nat assume ij: "i < j" "j < n"
  then have "0 < ?d" using d by auto
  moreover have "real (n - 1 - j) < real (n - 1 - i)" using ij by simp
  ultimately have "real (n - 1 - j) * ?d < real (n - 1 - i) * ?d"
    by (rule mult_strict_right_mono[rotated])
  then have "10 powr (- rhigh + real (n - 1 - j) * ?d) < 10 powr (- rhigh + real (n - 1 - i) * ?d)"
    by simp
  then show "1 / 10 powr (- rhigh + real (n - 1 - i) * ?d)
           < 1 / 10 powr (- rhigh + real (n - 1 - j) * ?d)"
    by (simp add: frac_less2)
qed

lemma corr_hankl_richardson_Inr:
  assumes hankl: "\<forall>k P r xi. P2xi E k P = Inr (r, xi) \<longrightarrow> r = map (\<lambda>x. 1 / x) (rev k)"
    and ret: "corr_hankl_richardson E func logrmin logrmax samples_per_decade richardson_n
                pad_low pad_high = Inr (r, F)"
  shows "r = filter (\<lambda>r. 0 < r \<and> logrmin \<le> log 10 r \<and> log 10 r \<le> logrmax)
               (map (\<lambda>m. 1 / 10 powr (- (logrmax + pad_high)
                       + real (nat (py_int (samples_per_decade * (logrmax + pad_high - (logrmin - pad_low)))) - 1 - m)
                         * ((logrmax + pad_high - (logrmin - pad_low))
                            / real (nat (py_int (samples_per_decade * (logrmax + pad_high - (logrmin - pad_low))))))))
                    [0..<nat (py_int (samples_per_decade * (logrmax + pad_high - (logrmin - pad_low))))])"
proof -
  let ?rlow = "logrmin - pad_low" and ?rhigh = "logrmax + pad_high"
  let ?n = "py_int (samples_per_decade * (?rhigh - ?rlow))"
  let ?ws = "map (work E func ?rlow ?rhigh ?n) [0..<nat richardson_n]"
  obtain rs0 e0 rest where ws: "all_or_raise ?ws = Inr ((rs0, e0) # rest)"
    and r: "boolean_index (map (\<lambda>r. 0 < r \<and> logrmin \<le> log 10 r \<and> log 10 r \<le> logrmax) rs0) rs0 = Inr r"
    using ret
    by (auto simp: corr_hankl_richardson_def Let_def simp del: list.map all_or_raise.simps
             split: sum.splits list.splits option.splits)
  have "?ws = map Inr ((rs0, e0) # rest)" using ws by (rule all_or_raise_Inr)
  then have "Inr (rs0, e0) \<in> set ?ws" by simp
  then obtain ii where "work E func ?rlow ?rhigh ?n ii = Inr (rs0, e0)" by auto
  then have "rs0 = map (\<lambda>m. 1 / 10 powr (- ?rhigh + real (nat ?n - 1 - m)
                                  * ((?rhigh - ?rlow) / real (nat ?n)))) [0..<nat ?n]"
    by (rule work_grid(2)[OF hankl])
  then show ?thesis using r by (simp only: boolean_index_map sum.inject)
qed


lemma py_int_pos: "0 < py_int x \<Longrightarrow> 0 < x"
  by (auto simp: py_int_def split: if_splits)

lemma py_int_nonneg: "0 \<le> x \<Longrightarrow> 0 \<le> py_int x"
  by (simp add: py_int_def)

lemma corr_hankl_richardson_radii:
  assumes hankl: "\<forall>k P r xi. P2xi E k P = Inr (r, xi) \<longrightarrow> r = map (\<lambda>x. 1 / x) (rev k)"
    and spd: "0 < samples_per_decade"
    and ret: "corr_hankl_richardson E func logrmin logrmax samples_per_decade richardson_n
                pad_low pad_high = Inr (r, F)"
  shows "sorted_wrt (<) r" and "\<forall>x\<in>set r. 10 powr logrmin \<le> x"
proof -
  let ?D = "logrmax + pad_high - (logrmin - pad_low)"
  let ?n = "nat (py_int (samples_per_decade * ?D))"
  let ?grid = "map (\<lambda>m. 1 / 10 powr (- (logrmax + pad_high) + real (?n - 1 - m) * (?D / real ?n)))
                   [0..<?n]"
  have r: "r = filter (\<lambda>r. 0 < r \<and> logrmin \<le> log 10 r \<and> log 10 r \<le> logrmax) ?grid"
    by (rule corr_hankl_richardson_Inr[OF hankl ret])
  have "?n \<le> 1 \<or> 0 < ?D / real ?n"
  proof (cases "?n \<le> 1")
    case True then show ?thesis by simp
  next
    case False
    then have "0 < py_int (samples_per_decade * ?D)" by simp
    then have "0 < samples_per_decade * ?D" by (rule py_int_pos)
    then have "0 < ?D" using spd by (simp add: zero_less_mult_iff)
    then show ?thesis using False by simp
  qed
  then have "sorted_wrt (<) ?grid" by (rule reciprocal_grid_increasing)
  then show "sorted_wrt (<) r" unfolding r by (rule sorted_wrt_filter)
  show "\<forall>x\<in>set r. 10 powr logrmin \<le> x"
  proof
    fix x assume "x \<in> set r"
    then have x: "0 < x" "logrmin \<le> log 10 x" unfolding r by simp_all
    have "10 powr logrmin \<le> 10 powr (log 10 x)" using x(2) by simp
    then show "10 powr logrmin \<le> x" using x(1) by simp
  qed
qed

lemma corr_hankel_radii:
  assumes order: "logrmin < logrmax"
    and ret: "corr_hankel H func logrmin logrmax samples_per_decade hh = Inr (r, F)"
  shows "sorted_wrt (<) r" and "\<forall>x\<in>set r. 10 powr logrmin \<le> x"
proof -
  obtain num where r: "r = logspace logrmin logrmax num True"
    using ret by (auto simp: corr_hankel_def np_logspace_def split: sum.splits if_splits)
  show "sorted_wrt (<) r" unfolding r by (rule logspace_closed_increasing(1)[OF order])
  show "\<forall>x\<in>set r. 10 powr logrmin \<le> x" unfolding r by (rule logspace_closed_increasing(2)[OF order])
qed

text \<open>
  Claim C9. With the radii of \<open>hankl.P2xi\<close> the reciprocals of the wavenumbers in reverse order
  (the library contract of claim C7), and for \<open>minlogr < switchlogr < maxlogr\<close> and
  \<open>samples_per_decade \<ge> 1\<close>: the radii returned by \<open>ps_to_corr\<close>, on either transform path,
  start with \<open>0\<close> and are strictly increasing over the whole array, the join of the two regimes
  included.
\<close>

theorem ps_to_corr_radii_increasing:
  assumes hankl: "\<forall>k P r xi. P2xi E k P = Inr (r, xi) \<longrightarrow> r = map (\<lambda>x. 1 / x) (rev k)"
    and order: "minlogr < switchlogr" "switchlogr < maxlogr"
    and spd: "1 \<le> samples_per_decade"
    and ret: "ps_to_corr S E H psfunc minlogr maxlogr switchlogr samples_per_decade fftlog kwargs
                = Inr (ra, Fr)"
  shows "ra \<noteq> [] \<and> hd ra = 0 \<and> sorted_wrt (<) ra"
proof -
  have spd0: "0 < samples_per_decade" using spd by simp
  obtain num rhigh Fhigh where
    high: "(if fftlog
            then corr_hankl_richardson E psfunc switchlogr maxlogr samples_per_decade
                   (kw_richardson_n kwargs) (kw_pad_low kwargs) (kw_pad_high kwargs)
            else corr_hankel H psfunc switchlogr maxlogr samples_per_decade (kw_h kwargs))
           = Inr (rhigh, Fhigh)"
    and ra: "ra = (0 # logspace minlogr switchlogr num False) @ rhigh"
    using ret
    by (auto simp: ps_to_corr_def np_logspace_def Let_def split: sum.splits if_splits)
  let ?rlow = "logspace minlogr switchlogr num False"
  have low: "sorted_wrt (<) ?rlow" "\<forall>x\<in>set ?rlow. 0 < x \<and> x < 10 powr switchlogr"
    by (rule logspace_open_increasing[OF order(1)])+
  have hi: "sorted_wrt (<) rhigh \<and> (\<forall>x\<in>set rhigh. 10 powr switchlogr \<le> x)"
  proof (cases fftlog)
    case True
    then have "corr_hankl_richardson E psfunc switchlogr maxlogr samples_per_decade
                   (kw_richardson_n kwargs) (kw_pad_low kwargs) (kw_pad_high kwargs) = Inr (rhigh, Fhigh)"
      using high by simp
    then show ?thesis
      using corr_hankl_richardson_radii[OF hankl spd0] by blast
  next
    case False
    then have "corr_hankel H psfunc switchlogr maxlogr samples_per_decade (kw_h kwargs)
                 = Inr (rhigh, Fhigh)"
      using high by simp
    then show ?thesis
      using corr_hankel_radii[OF order(2)] by blast
  qed
  have pos: "\<forall>x\<in>set rhigh. 0 < x"
  proof
    fix x assume "x \<in> set rhigh"
    then have "10 powr switchlogr \<le> x" using hi by blast
    moreover have "(0::real) < 10 powr switchlogr" by simp
    ultimately show "0 < x" by linarith
  qed
  have "sorted_wrt (<) ((0 # ?rlow) @ rhigh)"
    unfolding sorted_wrt_append sorted_wrt.simps
    using low hi pos by fastforce
  then show ?thesis unfolding ra by simp
qed

lemma corr_hankel_returns:
  assumes "0 \<le> (logrmax - logrmin) * samples_per_decade"
  shows "\<exists>r F. corr_hankel H func logrmin logrmax samples_per_decade hh = Inr (r, F)"
  using py_int_nonneg[OF assms] by (simp add: corr_hankel_def np_logspace_def)

lemma ps_to_corr_returns:
  assumes low: "0 \<le> (switchlogr - minlogr) * samples_per_decade"
    and high: "\<exists>rhigh Fhigh.
            (if fftlog
             then corr_hankl_richardson E psfunc switchlogr maxlogr samples_per_decade
                    (kw_richardson_n kwargs) (kw_pad_low kwargs) (kw_pad_high kwargs)
             else corr_hankel H psfunc switchlogr maxlogr samples_per_decade (kw_h kwargs))
            = Inr (rhigh, Fhigh)"
  shows "\<exists>ra Fr. ps_to_corr S E H psfunc minlogr maxlogr switchlogr samples_per_decade fftlog kwargs
                   = Inr (ra, Fr)"
proof -
  obtain rhigh Fhigh where h:
    "(if fftlog
      then corr_hankl_richardson E psfunc switchlogr maxlogr samples_per_decade
             (kw_richardson_n kwargs) (kw_pad_low kwargs) (kw_pad_high kwargs)
      else corr_hankel H psfunc switchlogr maxlogr samples_per_decade (kw_h kwargs))
     = Inr (rhigh, Fhigh)"
    using high by blast
  have n: "\<not> py_int ((switchlogr - minlogr) * samples_per_decade) < 0"
    using py_int_nonneg[OF low] by simp
  show ?thesis
    unfolding ps_to_corr_def np_logspace_def Let_def
    by (simp only: n if_False sum.case h prod.case) blast
qed

theorem ps_to_corr_radii_increasing_witness:
  "(\<exists>ra Fr. ps_to_corr unit_ext unit_hankl unit_hankel flat_spectrum (- 1) 1 0 1 True default_kwargs
               = Inr (ra, Fr)
           \<and> ra \<noteq> [] \<and> hd ra = 0 \<and> sorted_wrt (<) ra)
 \<and> (\<exists>ra Fr. ps_to_corr unit_ext unit_hankl unit_hankel flat_spectrum (- 1) 1 0 1 False default_kwargs
               = Inr (ra, Fr)
           \<and> ra \<noteq> [] \<and> hd ra = 0 \<and> sorted_wrt (<) ra)"
proof -
  have o: "(- 1 :: real) < 0" "(0::real) < 1" "(1::real) \<le> 1" by simp_all
  note T = ps_to_corr_radii_increasing[OF unit_hankl_grid o, of unit_ext unit_hankel flat_spectrum]
  have h1: "\<exists>rhigh Fhigh. corr_hankl_richardson unit_hankl flat_spectrum 0 1 1
              (kw_richardson_n default_kwargs) (kw_pad_low default_kwargs)
              (kw_pad_high default_kwargs) = Inr (rhigh, Fhigh)"
    by (rule corr_hankl_richardson_returns[OF unit_hankl_returns])
       (simp_all add: default_kwargs_def py_int_def)
  have h2: "\<exists>rhigh Fhigh. corr_hankel unit_hankel flat_spectrum 0 1 1 (kw_h default_kwargs)
              = Inr (rhigh, Fhigh)"
    by (rule corr_hankel_returns) simp
  have r1: "\<exists>ra Fr. ps_to_corr unit_ext unit_hankl unit_hankel flat_spectrum (- 1) 1 0 1 True
                      default_kwargs = Inr (ra, Fr)"
    by (rule ps_to_corr_returns) (simp_all add: h1)
  have r2: "\<exists>ra Fr. ps_to_corr unit_ext unit_hankl unit_hankel flat_spectrum (- 1) 1 0 1 False
                      default_kwargs = Inr (ra, Fr)"
    by (rule ps_to_corr_returns) (simp_all add: h2)
  show ?thesis using T r1 r2 by blast
qed


end
